theory Spec2Isabelle
  imports Complex_Main "HOL-Library.AList"
begin

section \<open>Values, objects and the heap\<close>

text \<open>
  The translator walks a JavaScript object graph and, in one
  place (\<^verbatim>\<open>regularString\<close>), writes into it. Schema nodes are therefore kept in an
  explicit heap: a value is a primitive or a reference to a heap object, and a heap
  object is a plain object (its own properties, in insertion order) or an array.
  Numbers are rationals (the numbers of a JSON document). Inherited (prototype)
  properties are not modelled: a property read sees own properties only. The one
  inherited accessor that matters to the translator is the setter of \<^verbatim>\<open>__proto__\<close>,
  which turns a store under that key on a fresh object into no own property; the two
  stores of the source that can meet it are modelled accordingly. Keys are
  enumerated in insertion order; the runtime's rule that puts integer-like keys of a
  plain object first is not modelled.
\<close>

datatype val = Undefined | Null | Bool bool | Num rat | Str string | Ref nat

datatype obj = Obj "(string \<times> val) list" | Arr "val list"

datatype error =
    TypeError             \<comment> \<open>the runtime's TypeError (property of undefined, call of a non-function)\<close>
  | AssertionError string \<comment> \<open>a failed hoek \<^verbatim>\<open>assert\<close>, with the fixed part of its message\<close>
  | ValidationError       \<comment> \<open>the entry validation of schema or options failed\<close>
  | OutOfFuel             \<comment> \<open>the recursion went deeper than the depth bound\<close>
  | ModelError            \<comment> \<open>a heap the model does not describe (dangling reference)\<close>

record state =
  heap :: "obj list"
  warnings :: "val list"

fun truthy :: "val \<Rightarrow> bool" where
  "truthy Undefined = False"
| "truthy Null = False"
| "truthy (Bool b) = b"
| "truthy (Num n) = (n \<noteq> 0)"
| "truthy (Str s) = (s \<noteq> [])"
| "truthy (Ref a) = True"

fun isNumber :: "val \<Rightarrow> bool" where
  "isNumber (Num n) = True"
| "isNumber v = False"

fun isObject :: "val \<Rightarrow> bool" where
  "isObject (Ref a) = True"
| "isObject v = False"

fun isString :: "val \<Rightarrow> bool" where
  "isString (Str s) = True"
| "isString v = False"

definition isUndefined :: "val \<Rightarrow> bool" where
  "isUndefined v = (v = Undefined)"

definition isArray :: "obj list \<Rightarrow> val \<Rightarrow> bool" where
  "isArray h v =
     (case v of
        Ref a \<Rightarrow> a < length h \<and> (case h ! a of Arr xs \<Rightarrow> True | Obj ps \<Rightarrow> False)
      | _ \<Rightarrow> False)"

text \<open>The elements of an array value (empty for anything else).\<close>

definition elems :: "obj list \<Rightarrow> val \<Rightarrow> val list" where
  "elems h v =
     (case v of
        Ref a \<Rightarrow> (if a < length h then (case h ! a of Arr xs \<Rightarrow> xs | Obj ps \<Rightarrow> []) else [])
      | _ \<Rightarrow> [])"

subsection \<open>Property keys of arrays\<close>

definition digit_char :: "nat \<Rightarrow> char" where
  "digit_char d = char_of (48 + d)"

fun show_nat :: "nat \<Rightarrow> string" where
  "show_nat n = (if n < 10 then [digit_char n] else show_nat (n div 10) @ [digit_char (n mod 10)])"

definition is_digit :: "char \<Rightarrow> bool" where
  "is_digit c = (48 \<le> (of_char c :: nat) \<and> (of_char c :: nat) \<le> 57)"

definition parse_index :: "string \<Rightarrow> nat option" where
  "parse_index s =
     (if s \<noteq> [] \<and> list_all is_digit s \<and> (s = ''0'' \<or> hd s \<noteq> CHR ''0'')
      then Some (foldl (\<lambda>n c. 10 * n + (of_char c - 48)) 0 s)
      else None)"

definition lookup :: "(string \<times> val) list \<Rightarrow> string \<Rightarrow> val" where
  "lookup ps k = (case map_of ps k of None \<Rightarrow> Undefined | Some v \<Rightarrow> v)"

fun own_get :: "obj \<Rightarrow> string \<Rightarrow> val" where
  "own_get (Obj ps) k = lookup ps k"
| "own_get (Arr xs) k =
     (if k = ''length'' then Num (of_nat (length xs))
      else (case parse_index k of
              Some i \<Rightarrow> (if i < length xs then xs ! i else Undefined)
            | None \<Rightarrow> Undefined))"

text \<open>The own enumerable entries of an object, as \<^verbatim>\<open>Object.keys\<close> and
  \<^verbatim>\<open>Object.assign\<close> enumerate them.\<close>

fun own_entries :: "obj \<Rightarrow> (string \<times> val) list" where
  "own_entries (Obj ps) = ps"
| "own_entries (Arr xs) = zip (map show_nat [0..<length xs]) xs"

text \<open>
  \<^verbatim>\<open>v[k]\<close>: reading a property of \<^verbatim>\<open>undefined\<close> or \<^verbatim>\<open>null\<close> throws; the other
  primitives have none of the keys the translator reads.
\<close>

definition get_prop :: "obj list \<Rightarrow> val \<Rightarrow> string \<Rightarrow> error + val" where
  "get_prop h v k =
     (case v of
        Undefined \<Rightarrow> Inl TypeError
      | Null \<Rightarrow> Inl TypeError
      | Ref a \<Rightarrow> (if a < length h then Inr (own_get (h ! a) k) else Inl ModelError)
      | _ \<Rightarrow> Inr Undefined)"

subsection \<open>Strings\<close>

text \<open>\<^verbatim>\<open>s.indexOf(c)\<close> for a one-character needle, \<^verbatim>\<open>s.split(c)\<close>, and
  \<^verbatim>\<open>s.indexOf(t)\<close> for a string needle.\<close>

fun indexOf_char :: "string \<Rightarrow> char \<Rightarrow> int" where
  "indexOf_char [] c = -1"
| "indexOf_char (x # xs) c =
     (if x = c then 0 else (let i = indexOf_char xs c in if i = -1 then -1 else i + 1))"

fun split_on :: "char \<Rightarrow> string \<Rightarrow> string list" where
  "split_on c [] = [[]]"
| "split_on c (x # xs) =
     (if x = c then [] # split_on c xs
      else (case split_on c xs of [] \<Rightarrow> [[x]] | p # ps \<Rightarrow> (x # p) # ps))"

fun is_prefix :: "string \<Rightarrow> string \<Rightarrow> bool" where
  "is_prefix [] ys = True"
| "is_prefix (x # xs) [] = False"
| "is_prefix (x # xs) (y # ys) = (x = y \<and> is_prefix xs ys)"

fun indexOf_str :: "string \<Rightarrow> string \<Rightarrow> int" where
  "indexOf_str [] t = (if t = [] then 0 else -1)"
| "indexOf_str (x # xs) t =
     (if is_prefix t (x # xs) then 0
      else (let i = indexOf_str xs t in if i = -1 then -1 else i + 1))"

fun indexOf_list :: "val list \<Rightarrow> val \<Rightarrow> int" where
  "indexOf_list [] v = -1"
| "indexOf_list (x # xs) v =
     (if x = v then 0 else (let i = indexOf_list xs v in if i = -1 then -1 else i + 1))"

text \<open>
  \<^verbatim>\<open>r.indexOf(key)\<close> as \<^verbatim>\<open>resolveproperties\<close> calls it on a truthy \<^verbatim>\<open>required\<close>:
  arrays compare with strict equality, strings search a substring, anything else has
  no \<^verbatim>\<open>indexOf\<close>.
\<close>

definition indexOf :: "obj list \<Rightarrow> val \<Rightarrow> string \<Rightarrow> error + int" where
  "indexOf h r key =
     (case r of
        Str s \<Rightarrow> Inr (indexOf_str s key)
      | Ref a \<Rightarrow>
          (if a < length h
           then (case h ! a of Arr xs \<Rightarrow> Inr (indexOf_list xs (Str key)) | Obj ps \<Rightarrow> Inl TypeError)
           else Inl ModelError)
      | _ \<Rightarrow> Inl TypeError)"

section \<open>Validation rules\<close>

text \<open>
  The rule library (Joi) is external and its rules are opaque to the translator, which
  only calls builders and chains methods on what they return. A rule is the term of
  the calls that built it: one constructor for every builder and method the source
  uses, the receiver first. Argument checks inside the library and inside the
  regular-expression constructor are not part of the model.
\<close>

datatype rule =
    JoiAny | JoiBoolean | JoiNumber | JoiString | JoiDate | JoiBinary | JoiArray
  | JoiObject "(string \<times> rule) list option"
  | JoiAlternatives "rule list option"
  | Try rule "rule list"
  | When rule rule rule rule
  | Required rule
  | Forbidden rule
  | Strict rule bool
  | Valid rule val
  | Allow rule val
  | Description rule val
  | Label rule val
  | Default rule val
  | Unknown rule bool
  | Pattern rule rule
  | MinOf rule val
  | MaxOf rule val
  | Greater rule val
  | Less rule val
  | Multiple rule val
  | Integer rule
  | Items rule "rule list"
  | Ordered rule "rule list"
  | Unique rule
  | Email rule
  | Hostname rule
  | Ip rule string
  | Uri rule
  | Base64 rule
  | Regex rule val

text \<open>
  The options after validation. \<^verbatim>\<open>types\<close> is the lookup \<^verbatim>\<open>types[type]\<close> of a
  pre-built rule, \<^verbatim>\<open>refineType\<close> a pure function; \<open>None\<close> stands for an option that
  is absent or \<^verbatim>\<open>null\<close>.
\<close>

record config =
  subSchemas :: val
  types :: "(val \<Rightarrow> rule option) option"
  refineType :: "(val \<Rightarrow> val \<Rightarrow> val) option"
  strictMode :: bool

section \<open>The state and error monad\<close>

type_synonym 'a m = "state \<Rightarrow> (error + 'a) \<times> state"

definition ret :: "'a \<Rightarrow> 'a m" where
  "ret x = (\<lambda>s. (Inr x, s))"

definition throw :: "error \<Rightarrow> 'a m" where
  "throw e = (\<lambda>s. (Inl e, s))"

definition bnd :: "'a m \<Rightarrow> ('a \<Rightarrow> 'b m) \<Rightarrow> 'b m" where
  "bnd f g = (\<lambda>s. case f s of (Inl e, s') \<Rightarrow> (Inl e, s') | (Inr x, s') \<Rightarrow> g x s')"

definition rd :: "(obj list \<Rightarrow> error + 'a) \<Rightarrow> 'a m" where
  "rd f = (\<lambda>s. (f (heap s), s))"

definition getM :: "val \<Rightarrow> string \<Rightarrow> val m" where
  "getM v k = rd (\<lambda>h. get_prop h v k)"

definition assert :: "bool \<Rightarrow> string \<Rightarrow> unit m" where
  "assert c msg = (if c then ret () else throw (AssertionError msg))"

definition alloc :: "obj \<Rightarrow> val m" where
  "alloc ob = (\<lambda>s. (Inr (Ref (length (heap s))), s\<lparr>heap := heap s @ [ob]\<rparr>))"

fun set_own :: "obj \<Rightarrow> string \<Rightarrow> val \<Rightarrow> obj" where
  "set_own (Obj ps) k v = Obj (AList.update k v ps)"
| "set_own (Arr xs) k v = Arr xs"

text \<open>
  \<^verbatim>\<open>target[k] = v\<close> in strict mode. The only assignment of the source is on a node
  whose \<^verbatim>\<open>type\<close> is truthy, which an array never is; a named property on an array
  is outside the model.
\<close>

definition setM :: "val \<Rightarrow> string \<Rightarrow> val \<Rightarrow> unit m" where
  "setM target k v =
     (\<lambda>s. case target of
            Ref a \<Rightarrow>
              (if a < length (heap s)
               then (case heap s ! a of
                       Obj ps \<Rightarrow> (Inr (), s\<lparr>heap := (heap s)[a := set_own (Obj ps) k v]\<rparr>)
                     | Arr xs \<Rightarrow> (Inl ModelError, s))
               else (Inl ModelError, s))
          | _ \<Rightarrow> (Inl TypeError, s))"

fun mapM :: "('a \<Rightarrow> 'b m) \<Rightarrow> 'a list \<Rightarrow> 'b list m" where
  "mapM f [] = ret []"
| "mapM f (x # xs) = bnd (f x) (\<lambda>y. bnd (mapM f xs) (\<lambda>ys. ret (y # ys)))"

definition bndE :: "error + 'a \<Rightarrow> ('a \<Rightarrow> error + 'b) \<Rightarrow> error + 'b" where
  "bndE x g = (case x of Inl e \<Rightarrow> Inl e | Inr v \<Rightarrow> g v)"

definition whenNumber :: "val \<Rightarrow> string \<Rightarrow> (rule \<Rightarrow> val \<Rightarrow> rule) \<Rightarrow> rule \<Rightarrow> rule m" where
  \<comment> \<open>\<^verbatim>\<open>isNumber(current[k]) && (joischema = joischema.method(current[k]))\<close>\<close>
  "whenNumber current k method joischema =
     bnd (getM current k) (\<lambda>v. ret (if isNumber v then method joischema v else joischema))"

definition whenTruthy :: "val \<Rightarrow> string \<Rightarrow> (rule \<Rightarrow> val \<Rightarrow> rule) \<Rightarrow> rule \<Rightarrow> rule m" where
  \<comment> \<open>\<^verbatim>\<open>current[k] && (joischema = joischema.method(current[k]))\<close>\<close>
  "whenTruthy current k method joischema =
     bnd (getM current k) (\<lambda>v. ret (if truthy v then method joischema v else joischema))"

definition arrayM :: "val \<Rightarrow> (bool \<times> val list) m" where
  \<comment> \<open>\<^verbatim>\<open>isArray(v)\<close> together with the elements of \<open>v\<close>\<close>
  "arrayM v = rd (\<lambda>h. Inr (isArray h v, elems h v))"

section \<open>The reference resolver\<close>

text \<open>
  The loop of \<^verbatim>\<open>resolveref\<close> over the path segments after the first: it stops at a
  falsy fragment, and a truthy fragment that is not an object becomes \<^verbatim>\<open>false\<close>.
\<close>

fun walk :: "obj list \<Rightarrow> val \<Rightarrow> string list \<Rightarrow> error + val" where
  "walk h fragment [] = Inr fragment"
| "walk h fragment (p # ps) =
     (if truthy fragment
      then (if isObject fragment
            then (case get_prop h fragment p of Inl e \<Rightarrow> Inl e | Inr v \<Rightarrow> walk h v ps)
            else walk h (Bool False) ps)
      else Inr fragment)"

text \<open>
  \<^verbatim>\<open>subSchemas[id] || subSchemas[id.substr(0, id.length - 1)]\<close>, evaluated only when
  both \<^verbatim>\<open>id\<close> and \<^verbatim>\<open>subSchemas\<close> are truthy; otherwise \<^verbatim>\<open>refschema\<close> stays undefined.
\<close>

definition registry_lookup :: "config \<Rightarrow> obj list \<Rightarrow> string \<Rightarrow> error + val" where
  "registry_lookup cfg h ident =
     (if ident \<noteq> [] \<and> truthy (subSchemas cfg)
      then bndE (get_prop h (subSchemas cfg) ident)
             (\<lambda>r. if truthy r then Inr r else get_prop h (subSchemas cfg) (butlast ident))
      else Inr Undefined)"

definition resolveref :: "config \<Rightarrow> val \<Rightarrow> obj list \<Rightarrow> val \<Rightarrow> error + val" where
  "resolveref cfg schema h value =
     (case value of
        Str v \<Rightarrow>
          (let i = indexOf_char v (CHR ''#'');
               ident = take (nat (i + 1)) v;
               path = drop (nat (i + 1)) v
           in bndE (registry_lookup cfg h ident)
                (\<lambda>found.
                   let refschema = (if truthy found then found else schema)
                   in if truthy refschema
                      then walk h refschema (tl (split_on (CHR ''/'') path))
                      else Inl (AssertionError (''Can not find schema reference: '' @ v @ ''.''))))
      | _ \<Rightarrow> Inl TypeError)"

section \<open>The merge engine\<close>

definition getSchemaType :: "config \<Rightarrow> val \<Rightarrow> obj list \<Rightarrow> val \<Rightarrow> error + val" where
  "getSchemaType cfg schema h current =
     bndE (get_prop h current ''type'')
       (\<lambda>t. if truthy t then Inr t
            else bndE (get_prop h current ''$ref'')
                   (\<lambda>r. if truthy r
                        then bndE (resolveref cfg schema h r) (\<lambda>target. get_prop h target ''type'')
                        else Inr Undefined))"

text \<open>\<^verbatim>\<open>if (item.$ref) { item = resolveref(item.$ref); }\<close>\<close>

definition deref :: "config \<Rightarrow> val \<Rightarrow> obj list \<Rightarrow> val \<Rightarrow> error + val" where
  "deref cfg schema h item =
     bndE (get_prop h item ''$ref'')
       (\<lambda>r. if truthy r then resolveref cfg schema h r else Inr item)"

text \<open>
  The own enumerable entries of a value (\<^verbatim>\<open>Object.keys\<close>, the source of
  \<^verbatim>\<open>Object.assign\<close>), and the assignment of each to the target, in order. The
  target is a fresh \<^verbatim>\<open>{}\<close>, and \<^verbatim>\<open>Object.assign\<close> stores with an ordinary
  \<^verbatim>\<open>target[k] = v\<close>: for the key \<^verbatim>\<open>__proto__\<close> that is a call of the setter inherited
  from \<^verbatim>\<open>Object.prototype\<close>, which adds no own property to the target.
\<close>

definition assign_entries :: "obj list \<Rightarrow> val \<Rightarrow> (string \<times> val) list" where
  "assign_entries h src =
     (case src of
        Ref a \<Rightarrow> (if a < length h then own_entries (h ! a) else [])
      | Str s \<Rightarrow> zip (map show_nat [0..<length s]) (map (\<lambda>c. Str [c]) s)
      | _ \<Rightarrow> [])"

definition assign :: "(string \<times> val) list \<Rightarrow> (string \<times> val) list \<Rightarrow> (string \<times> val) list" where
  "assign target entries =
     foldl (\<lambda>ps (k, v). if k = ''__proto__'' then ps else AList.update k v ps) target entries"

text \<open>\<^verbatim>\<open>xs.concat(v)\<close>: an array argument is spread, anything else is appended.\<close>

definition concat_js :: "obj list \<Rightarrow> val list \<Rightarrow> val \<Rightarrow> val list" where
  "concat_js h xs v = (if isArray h v then xs @ elems h v else xs @ [v])"

text \<open>
  The loops of \<^verbatim>\<open>mergeObject\<close> and \<^verbatim>\<open>mergeArray\<close>. The objects they build
  (\<^verbatim>\<open>properties\<close>, \<^verbatim>\<open>required\<close>, \<^verbatim>\<open>items\<close>, \<^verbatim>\<open>ordered\<close>) are fresh and reachable
  from nowhere else while the loop runs, so they are accumulated as values and
  allocated when the loop is over.
\<close>

fun mergeObject_loop ::
  "config \<Rightarrow> val \<Rightarrow> obj list \<Rightarrow> val list \<Rightarrow> (string \<times> val) list \<Rightarrow> val list \<Rightarrow>
   error + ((string \<times> val) list \<times> val list)" where
  "mergeObject_loop cfg schema h [] properties required = Inr (properties, required)"
| "mergeObject_loop cfg schema h (item # rest) properties required =
     bndE (deref cfg schema h item) (\<lambda>item.
     bndE (get_prop h item ''properties'') (\<lambda>p.
     bndE (get_prop h item ''required'') (\<lambda>r.
       mergeObject_loop cfg schema h rest
         (assign properties (assign_entries h p))
         (if truthy r then concat_js h required r else required))))"

definition mergeObject :: "config \<Rightarrow> val \<Rightarrow> val \<Rightarrow> val m" where
  "mergeObject cfg schema current =
     bnd (rd (\<lambda>h. mergeObject_loop cfg schema h (elems h current) [] [])) (\<lambda>(properties, required).
     bnd (alloc (Obj properties)) (\<lambda>p.
     bnd (if required \<noteq> [] then alloc (Arr required) else ret Undefined) (\<lambda>r.
     alloc (Obj [(''type'', Str ''object''), (''properties'', p), (''required'', r)]))))"

fun mergeArray_loop ::
  "config \<Rightarrow> val \<Rightarrow> obj list \<Rightarrow> val list \<Rightarrow> val list \<Rightarrow> val list \<Rightarrow>
   error + (val list \<times> val list)" where
  "mergeArray_loop cfg schema h [] items ordered = Inr (items, ordered)"
| "mergeArray_loop cfg schema h (item # rest) items ordered =
     bndE (deref cfg schema h item) (\<lambda>item.
     bndE (get_prop h item ''items'') (\<lambda>its.
       if isArray h its
       then bndE (get_prop h item ''ordered'') (\<lambda>ord.
              mergeArray_loop cfg schema h rest (items @ elems h its)
                (if truthy ord then concat_js h ordered ord else ordered))
       else mergeArray_loop cfg schema h rest (items @ [its]) ordered))"

definition mergeArray :: "config \<Rightarrow> val \<Rightarrow> val \<Rightarrow> val m" where
  "mergeArray cfg schema current =
     bnd (rd (\<lambda>h. mergeArray_loop cfg schema h (elems h current) [] [])) (\<lambda>(items, ordered).
     bnd (alloc (Arr items)) (\<lambda>i.
     bnd (if ordered \<noteq> [] then alloc (Arr ordered) else ret Undefined) (\<lambda>od.
     alloc (Obj [(''type'', Str ''array''), (''items'', i), (''ordered'', od)]))))"

section \<open>Type builders\<close>

text \<open>
  Every function that calls \<^verbatim>\<open>resolve\<close> takes it as the parameter \<open>res\<close>; the
  recursion is closed in \<open>resolve\<close> below.
\<close>

definition resolveAsArray :: "(val \<Rightarrow> rule m) \<Rightarrow> val \<Rightarrow> rule list m" where
  "resolveAsArray res value =
     bnd (arrayM value) (\<lambda>(is_arr, vs).
       if is_arr then mapM res vs else bnd (res value) (\<lambda>r. ret [r]))"

definition number :: "val \<Rightarrow> rule m" where
  "number current =
     bnd (getM current ''type'') (\<lambda>t.
     bnd (whenNumber current ''minimum'' MinOf
            (if t = Str ''integer'' then Integer JoiNumber else JoiNumber)) (\<lambda>j.
     bnd (whenNumber current ''maximum'' MaxOf j) (\<lambda>j.
     bnd (whenNumber current ''exclusiveMinimum'' Greater j) (\<lambda>j.
     bnd (whenNumber current ''exclusiveMaximum'' Less j) (\<lambda>j.
     bnd (getM current ''multipleOf'') (\<lambda>v.
       ret (if isNumber v \<and> v \<noteq> Num 0 then Multiple j v else j)))))))"

definition date :: "val \<Rightarrow> rule m" where
  "date current =
     bnd (whenTruthy current ''minimum'' MinOf JoiDate) (\<lambda>j.
     whenTruthy current ''maximum'' MaxOf j)"

definition binary :: "val \<Rightarrow> rule m" where
  "binary current =
     bnd (whenTruthy current ''minLength'' MinOf JoiBinary) (\<lambda>j.
     whenTruthy current ''maxLength'' MaxOf j)"

text \<open>\<^verbatim>\<open>if (isUndefined(current.minLength)) { current.minLength = 0; }\<close>\<close>

definition defaultMinLength :: "val \<Rightarrow> unit m" where
  "defaultMinLength current =
     bnd (getM current ''minLength'') (\<lambda>m0.
       if isUndefined m0 then setM current ''minLength'' (Num 0) else ret ())"

definition regularString :: "val \<Rightarrow> rule \<Rightarrow> rule m" where
  "regularString current joischema =
     bnd (whenTruthy current ''pattern'' Regex joischema) (\<lambda>j.
     bnd (defaultMinLength current) (\<lambda>_.
     bnd (getM current ''minLength'') (\<lambda>ml.
     whenNumber current ''maxLength'' MaxOf
       (if isNumber ml then MinOf (if ml = Num 0 then Allow j (Str []) else j) ml else j))))"

definition string :: "val \<Rightarrow> rule m" where
  "string current =
     bnd (getM current ''enum'') (\<lambda>e.
       if truthy e then ret (Valid JoiAny e)
       else bnd (getM current ''format'') (\<lambda>f.
         if f = Str ''date'' \<or> f = Str ''date-time'' then date current
         else if f = Str ''binary'' then binary current
         else regularString current
                (if f = Str ''email'' then Email JoiString
                 else if f = Str ''hostname'' then Hostname JoiString
                 else if f = Str ''ipv4'' then Ip JoiString ''ipv4''
                 else if f = Str ''ipv6'' then Ip JoiString ''ipv6''
                 else if f = Str ''uri'' then Uri JoiString
                 else if f = Str ''byte'' then Base64 JoiString
                 else JoiString)))"

definition array :: "(val \<Rightarrow> rule m) \<Rightarrow> val \<Rightarrow> rule m" where
  "array res current =
     bnd (getM current ''items'') (\<lambda>its.
     bnd (if truthy its
          then bnd (resolveAsArray res its) (\<lambda>items. ret (Items JoiArray items, Some items))
          else bnd (getM current ''ordered'') (\<lambda>ord.
                 if truthy ord
                 then bnd (resolveAsArray res ord) (\<lambda>items. ret (Ordered JoiArray items, Some items))
                 else ret (JoiArray, None))) (\<lambda>(j, items).
     bnd (case items of
            None \<Rightarrow> ret j
          | Some xs \<Rightarrow> bnd (getM current ''additionalItems'') (\<lambda>ai.
              ret (if ai = Bool False then MaxOf j (Num (of_nat (length xs))) else j))) (\<lambda>j.
     bnd (whenNumber current ''minItems'' MinOf j) (\<lambda>j.
     bnd (whenNumber current ''maxItems'' MaxOf j) (\<lambda>j.
     bnd (getM current ''uniqueItems'') (\<lambda>u.
       ret (if truthy u then Unique j else j)))))))"

text \<open>
  \<^verbatim>\<open>resolveproperties\<close>: the keys are taken once, before the loop; the property and
  \<^verbatim>\<open>current.required\<close> are read in each round. \<^verbatim>\<open>!!~i\<close> is false exactly for
  \<^verbatim>\<open>i = -1\<close>. The result \<open>None\<close> is the \<^verbatim>\<open>undefined\<close> of the early return.
  \<open>resolveproperty\<close> is one round of the loop up to the store
  \<^verbatim>\<open>schemas[key] = joischema\<close>. \<^verbatim>\<open>schemas\<close> is a fresh \<^verbatim>\<open>{}\<close>, so the store adds the
  child under its key, except for the key \<^verbatim>\<open>__proto__\<close>: there it calls the setter
  inherited from \<^verbatim>\<open>Object.prototype\<close> and \<^verbatim>\<open>schemas\<close> gets no own property, hence the
  object rule no child (the property has been resolved all the same).
\<close>

definition resolveproperty :: "(val \<Rightarrow> rule m) \<Rightarrow> val \<Rightarrow> string \<Rightarrow> (string \<times> rule) m" where
  "resolveproperty res current key =
     bnd (getM current ''properties'') (\<lambda>ps.
     bnd (getM ps key) (\<lambda>property.
     bnd (res property) (\<lambda>joischema.
     bnd (getM current ''required'') (\<lambda>req.
       if truthy req
       then bnd (rd (\<lambda>h. indexOf h req key)) (\<lambda>i.
              ret (key, if i \<noteq> -1 then Required joischema else joischema))
       else ret (key, joischema)))))"

definition resolveproperties :: "(val \<Rightarrow> rule m) \<Rightarrow> val \<Rightarrow> (string \<times> rule) list option m" where
  "resolveproperties res current =
     bnd (getM current ''properties'') (\<lambda>ps.
       if \<not> isObject ps then ret None
       else bnd (rd (\<lambda>h. Inr (map fst (assign_entries h ps)))) (\<lambda>keys.
            bnd (mapM (resolveproperty res current) keys) (\<lambda>schemas.
              ret (Some (filter (\<lambda>(key, joischema). key \<noteq> ''__proto__'') schemas)))))"

definition object :: "(val \<Rightarrow> rule m) \<Rightarrow> val \<Rightarrow> rule m" where
  "object res current =
     bnd (resolveproperties res current) (\<lambda>schemas.
     bnd (getM current ''additionalProperties'') (\<lambda>ap.
     bnd (ret (if ap = Bool True then Unknown (JoiObject schemas) True
               else JoiObject schemas)) (\<lambda>j.
     bnd (if isObject ap then bnd (res ap) (\<lambda>r. ret (Pattern j r)) else ret j) (\<lambda>j.
     bnd (whenNumber current ''minProperties'' MinOf j) (\<lambda>j.
     whenNumber current ''maxProperties'' MaxOf j)))))"

definition joitype :: "config \<Rightarrow> (val \<Rightarrow> rule m) \<Rightarrow> val \<Rightarrow> val \<Rightarrow> val \<Rightarrow> rule m" where
  "joitype cfg res current type0 format =
     (let type = (case refineType cfg of Some f \<Rightarrow> f type0 format | None \<Rightarrow> type0)
      in bnd (if type = Str ''array'' then bnd (array res current) (\<lambda>j. ret (Some j))
              else if type = Str ''boolean'' then ret (Some JoiBoolean)
              else if type = Str ''integer'' \<or> type = Str ''number''
                then bnd (number current) (\<lambda>j. ret (Some j))
              else if type = Str ''object'' then bnd (object res current) (\<lambda>j. ret (Some j))
              else if type = Str ''string'' then bnd (string current) (\<lambda>j. ret (Some j))
              else if type = Str ''null'' then ret (Some (Valid JoiAny Null))
              else ret (case types cfg of Some t \<Rightarrow> t type | None \<Rightarrow> None)) (\<lambda>joischema.
         case joischema of
           None \<Rightarrow> throw (AssertionError ''Could not resolve type: '')
         | Some j \<Rightarrow> ret (Strict j (strictMode cfg))))"

definition resolvetype :: "config \<Rightarrow> (val \<Rightarrow> rule m) \<Rightarrow> val \<Rightarrow> rule m" where
  "resolvetype cfg res current =
     bnd (getM current ''type'') (\<lambda>t.
     bnd (arrayM t) (\<lambda>(is_arr, ts).
     bnd (if is_arr
          then bnd (mapM (\<lambda>ty. bnd (getM current ''format'') (joitype cfg res current ty)) ts)
                 (\<lambda>schemas. ret (JoiAlternatives (Some schemas)))
          else bnd (getM current ''format'') (joitype cfg res current t)) (\<lambda>j.
     bnd (whenTruthy current ''description'' Description j) (\<lambda>j.
     bnd (whenTruthy current ''title'' Label j) (\<lambda>j.
     whenTruthy current ''default'' Default j)))))"

section \<open>Combinators\<close>

definition resolveAnyOf :: "(val \<Rightarrow> rule m) \<Rightarrow> val \<Rightarrow> rule m" where
  "resolveAnyOf res current =
     bnd (getM current ''anyOf'') (\<lambda>a.
     bnd (arrayM a) (\<lambda>(is_arr, vs).
     bnd (assert is_arr ''Expected anyOf to be an array.'') (\<lambda>_.
     bnd (mapM res vs) (\<lambda>rs.
       ret (Try (JoiAlternatives None) rs)))))"

definition resolveOneOf :: "(val \<Rightarrow> rule m) \<Rightarrow> val \<Rightarrow> rule m" where
  "resolveOneOf res current =
     bnd (getM current ''oneOf'') (\<lambda>a.
     bnd (arrayM a) (\<lambda>(is_arr, vs).
     bnd (assert is_arr ''Expected allOf to be an array.'') (\<lambda>_.
     bnd (mapM res vs) (\<lambda>rs.
       ret (Required (Try (JoiAlternatives None) rs))))))"

definition resolveNot :: "(val \<Rightarrow> rule m) \<Rightarrow> val \<Rightarrow> rule m" where
  "resolveNot res current =
     bnd (getM current ''not'') (\<lambda>a.
     bnd (arrayM a) (\<lambda>(is_arr, vs).
     bnd (assert is_arr ''Expected Not to be an array.'') (\<lambda>_.
     bnd (mapM res vs) (\<lambda>rs.
       ret (When (JoiAlternatives None) (Try (JoiAlternatives None) rs)
              (Forbidden JoiAny) JoiAny)))))"

text \<open>\<^verbatim>\<open>current.allOf[0]\<close> is \<^verbatim>\<open>undefined\<close> for an empty array.\<close>

definition first_elem :: "val list \<Rightarrow> val" where
  "first_elem vs = (case vs of [] \<Rightarrow> Undefined | v # rest \<Rightarrow> v)"

definition checkAllOfItem :: "config \<Rightarrow> val \<Rightarrow> val \<Rightarrow> val \<Rightarrow> unit m" where
  "checkAllOfItem cfg schema type item =
     bnd (rd (\<lambda>h. getSchemaType cfg schema h item)) (\<lambda>ty.
       assert ((ty = Str ''array'' \<or> ty = Str ''object'') \<and> type = ty)
         ''Expected allOf item to be an array or object.'')"

definition resolveAllOf :: "config \<Rightarrow> val \<Rightarrow> (val \<Rightarrow> rule m) \<Rightarrow> val \<Rightarrow> rule m" where
  "resolveAllOf cfg schema res current =
     bnd (getM current ''allOf'') (\<lambda>a.
     bnd (arrayM a) (\<lambda>(is_arr, vs).
     bnd (assert is_arr ''Expected allOf to be an array.'') (\<lambda>_.
     bnd (rd (\<lambda>h. getSchemaType cfg schema h (first_elem vs))) (\<lambda>type.
     bnd (mapM (checkAllOfItem cfg schema type) vs) (\<lambda>_.
       if type = Str ''object'' then bnd (mergeObject cfg schema a) res
       else bnd (mergeArray cfg schema a) res)))))"

section \<open>The dispatcher\<close>

text \<open>
  \<^verbatim>\<open>JSON.stringify(current)\<close> in the warning throws a TypeError on a cyclic object
  graph. A cycle is reachable from \<open>v\<close> exactly when a chain of references longer
  than the heap starts there.
\<close>

fun serializable :: "obj list \<Rightarrow> nat \<Rightarrow> val \<Rightarrow> bool" where
  "serializable h 0 v = (\<not> isObject v)"
| "serializable h (Suc n) v =
     (case v of
        Ref a \<Rightarrow> a < length h \<and> list_all (\<lambda>w. serializable h n w) (map snd (own_entries (h ! a)))
      | _ \<Rightarrow> True)"

definition warn :: "val \<Rightarrow> unit m" where
  "warn current =
     (\<lambda>s. if serializable (heap s) (length (heap s)) current
          then (Inr (), s\<lparr>warnings := warnings s @ [current]\<rparr>)
          else (Inl TypeError, s))"

definition resolve_body :: "config \<Rightarrow> val \<Rightarrow> (val \<Rightarrow> rule m) \<Rightarrow> val \<Rightarrow> rule m" where
  "resolve_body cfg schema res current =
     bnd (getM current ''type'') (\<lambda>t. if truthy t then resolvetype cfg res current else
     bnd (getM current ''anyOf'') (\<lambda>v. if truthy v then resolveAnyOf res current else
     bnd (getM current ''allOf'') (\<lambda>v. if truthy v then resolveAllOf cfg schema res current else
     bnd (getM current ''oneOf'') (\<lambda>v. if truthy v then resolveOneOf res current else
     bnd (getM current ''not'') (\<lambda>v. if truthy v then resolveNot res current else
     bnd (getM current ''$ref'') (\<lambda>r. if truthy r then bnd (rd (\<lambda>h. resolveref cfg schema h r)) res else
     bnd (getM current ''enum'') (\<lambda>e. if truthy e then ret (Valid JoiAny e) else
     if isString current then bnd (alloc (Obj [(''type'', current)])) (resolvetype cfg res)
     else bnd (warn current) (\<lambda>_. ret JoiAny))))))))"

text \<open>
  \<open>resolve cfg schema n\<close> is \<^verbatim>\<open>resolve\<close> with room for \<open>n\<close> nested calls of itself;
  a cyclic \<^verbatim>\<open>$ref\<close> chain uses up any \<open>n\<close>.
\<close>

primrec resolve :: "config \<Rightarrow> val \<Rightarrow> nat \<Rightarrow> val \<Rightarrow> rule m" where
  "resolve cfg schema 0 = (\<lambda>current. throw OutOfFuel)"
| "resolve cfg schema (Suc n) = resolve_body cfg schema (resolve cfg schema n)"

section \<open>The entry point\<close>

text \<open>
  \<^verbatim>\<open>schemaSchema\<close> accepts an object that is not an array, or a non-empty string;
  \<^verbatim>\<open>optionsSchema\<close> accepts for \<^verbatim>\<open>subSchemas\<close> an object, \<^verbatim>\<open>null\<close> or nothing. The
  other options are typed by \<open>config\<close>.
\<close>

definition is_plain_object :: "obj list \<Rightarrow> val \<Rightarrow> bool" where
  "is_plain_object h v =
     (case v of
        Ref a \<Rightarrow> a < length h \<and> (case h ! a of Obj ps \<Rightarrow> True | Arr xs \<Rightarrow> False)
      | _ \<Rightarrow> False)"

definition valid_schema :: "obj list \<Rightarrow> val \<Rightarrow> bool" where
  "valid_schema h v = (is_plain_object h v \<or> (isString v \<and> v \<noteq> Str []))"

definition valid_options :: "obj list \<Rightarrow> config \<Rightarrow> bool" where
  "valid_options h cfg =
     (is_plain_object h (subSchemas cfg) \<or> subSchemas cfg = Null \<or> subSchemas cfg = Undefined)"

definition translate :: "nat \<Rightarrow> config \<Rightarrow> val \<Rightarrow> rule m" where
  "translate fuel cfg schema =
     bnd (rd (\<lambda>h. if valid_schema h schema then Inr () else Inl ValidationError)) (\<lambda>_.
     bnd (rd (\<lambda>h. if valid_options h cfg then Inr () else Inl ValidationError)) (\<lambda>_.
     resolve cfg schema fuel schema))"

section \<open>Properties of rules and of heaps\<close>

text \<open>
  The presence mark of a rule: \<^verbatim>\<open>required()\<close> sets it, \<^verbatim>\<open>forbidden()\<close> replaces
  it, every other method keeps the receiver's, and the rule of a builder has none.
\<close>

fun marked_required :: "rule \<Rightarrow> bool" where
  "marked_required (Required r) = True"
| "marked_required (Forbidden r) = False"
| "marked_required (Try r rs) = marked_required r"
| "marked_required (When r c t e) = marked_required r"
| "marked_required (Strict r b) = marked_required r"
| "marked_required (Valid r v) = marked_required r"
| "marked_required (Allow r v) = marked_required r"
| "marked_required (Description r v) = marked_required r"
| "marked_required (Label r v) = marked_required r"
| "marked_required (Default r v) = marked_required r"
| "marked_required (Unknown r b) = marked_required r"
| "marked_required (Pattern r p) = marked_required r"
| "marked_required (MinOf r v) = marked_required r"
| "marked_required (MaxOf r v) = marked_required r"
| "marked_required (Greater r v) = marked_required r"
| "marked_required (Less r v) = marked_required r"
| "marked_required (Multiple r v) = marked_required r"
| "marked_required (Integer r) = marked_required r"
| "marked_required (Items r rs) = marked_required r"
| "marked_required (Ordered r rs) = marked_required r"
| "marked_required (Unique r) = marked_required r"
| "marked_required (Email r) = marked_required r"
| "marked_required (Hostname r) = marked_required r"
| "marked_required (Ip r v) = marked_required r"
| "marked_required (Uri r) = marked_required r"
| "marked_required (Base64 r) = marked_required r"
| "marked_required (Regex r v) = marked_required r"
| "marked_required r = False"

text \<open>
  The strict setting of a rule: the argument of the last \<^verbatim>\<open>strict(..)\<close> on the chain
  of decorations, \<open>None\<close> when the rule was built without one.
\<close>

fun strict_setting :: "rule \<Rightarrow> bool option" where
  "strict_setting (Strict r b) = Some b"
| "strict_setting (Description r v) = strict_setting r"
| "strict_setting (Label r v) = strict_setting r"
| "strict_setting (Default r v) = strict_setting r"
| "strict_setting r = None"

text \<open>
  Modelled from the spec: the validation semantics of the external rule library, for
  the four rules the negation is built from. An alternation on a fresh
  \<^verbatim>\<open>alternatives()\<close> is "valid if at least one member rule passes", the conditional
  rule on a fresh \<^verbatim>\<open>alternatives()\<close> is "if (value matches ..) then .. else ..", the
  no-constraint rule accepts anything, and the forbidden no-constraint rule accepts
  no input that is present. What every other rule accepts is the parameter \<open>prim\<close>.
\<close>

fun accepts :: "(rule \<Rightarrow> 'v \<Rightarrow> bool) \<Rightarrow> rule \<Rightarrow> 'v \<Rightarrow> bool" where
  "accepts prim JoiAny v = True"
| "accepts prim (Forbidden r) v = (if r = JoiAny then False else prim (Forbidden r) v)"
| "accepts prim (Try a rs) v =
     (if a = JoiAlternatives None then list_ex (\<lambda>r. accepts prim r v) rs
      else prim (Try a rs) v)"
| "accepts prim (When a c t e) v =
     (if a = JoiAlternatives None
      then (if accepts prim c v then accepts prim t v else accepts prim e v)
      else prim (When a c t e) v)"
| "accepts prim r v = prim r v"

text \<open>
  \<open>ext h h'\<close>: the heap \<open>h'\<close> has every object of \<open>h\<close> at its address, unchanged or
  with the property \<^verbatim>\<open>minLength\<close>, undefined before, set to \<^verbatim>\<open>0\<close>.
\<close>

definition ext :: "obj list \<Rightarrow> obj list \<Rightarrow> bool" where
  "ext h h' =
     (length h \<le> length h' \<and>
      (\<forall>a < length h.
         h' ! a = h ! a \<or>
         (own_get (h ! a) ''minLength'' = Undefined \<and>
          h' ! a = set_own (h ! a) ''minLength'' (Num 0))))"

definition frames :: "'a m \<Rightarrow> bool" where
  "frames f = (\<forall>s x s'. f s = (x, s') \<longrightarrow> ext (heap s) (heap s'))"

subsection \<open>Example inputs\<close>

definition cfg0 :: config where
  "cfg0 = \<lparr>subSchemas = Undefined, types = None, refineType = None, strictMode = False\<rparr>"

definition cfg_strict :: config where
  "cfg_strict = \<lparr>subSchemas = Undefined, types = None, refineType = None, strictMode = True\<rparr>"

definition state_of :: "obj list \<Rightarrow> state" where
  "state_of h = \<lparr>heap = h, warnings = []\<rparr>"

text \<open>The rule of \<^verbatim>\<open>{type: 'string'}\<close> without strict mode.\<close>

definition string_rule :: rule where
  "string_rule = Strict (MinOf (Allow JoiString (Str [])) (Num 0)) False"

text \<open>A property read that cannot fail, and the test \<^verbatim>\<open>if (current[k])\<close>.\<close>

definition read_prop :: "obj list \<Rightarrow> val \<Rightarrow> string \<Rightarrow> val" where
  "read_prop h v k = (case get_prop h v k of Inr x \<Rightarrow> x | Inl e \<Rightarrow> Undefined)"

definition has :: "obj list \<Rightarrow> val \<Rightarrow> string \<Rightarrow> bool" where
  "has h v k = truthy (read_prop h v k)"

text \<open>
  \<^verbatim>\<open>{anyOf: A, oneOf: A, not: A}\<close> with \<^verbatim>\<open>A = ['string', 'boolean']\<close>, the same
  keywords with the value \<^verbatim>\<open>'string'\<close>, the heap after the two members of \<^verbatim>\<open>A\<close>
  have been resolved, and their rules.
\<close>

definition heap_both :: "obj list" where
  "heap_both =
     [Arr [Str ''string'', Str ''boolean''],
      Obj [(''anyOf'', Ref 0), (''oneOf'', Ref 0), (''not'', Ref 0)],
      Obj [(''anyOf'', Str ''string''), (''oneOf'', Str ''string''), (''not'', Str ''string'')]]"

definition heap_both_after :: "obj list" where
  "heap_both_after =
     heap_both @
     [Obj [(''type'', Str ''string''), (''minLength'', Num 0)], Obj [(''type'', Str ''boolean'')]]"

definition rules_both :: "rule list" where
  "rules_both = [string_rule, Strict JoiBoolean False]"

text \<open>A reading of the two leaf rules of \<open>rules_both\<close> on values.\<close>

definition prim_example :: "rule \<Rightarrow> val \<Rightarrow> bool" where
  "prim_example r v =
     ((r = string_rule \<and> isString v) \<or>
      (r = Strict JoiBoolean False \<and> (v = Bool True \<or> v = Bool False)))"

text \<open>\<^verbatim>\<open>{type: 'string'}\<close> before and after \<^verbatim>\<open>translate\<close>.\<close>

definition heap_string :: "obj list" where
  "heap_string = [Obj [(''type'', Str ''string'')]]"

definition heap_string_after :: "obj list" where
  "heap_string_after = [Obj [(''type'', Str ''string''), (''minLength'', Num 0)]]"

text \<open>
  The root \<^verbatim>\<open>{type: 'object', properties: {a: {$ref: '#/o'}, b: {$ref: '#/o/properties'},
  c: {$ref: '#/o'}}, o: {type: 'object', properties: {type: 'string'}}}\<close>: the
  properties mapping of \<^verbatim>\<open>o\<close>, read as a schema through \<^verbatim>\<open>b\<close>, is a string node.
  \<open>rule_first\<close> and \<open>rule_second\<close> are the rules of \<^verbatim>\<open>o\<close> before and after that.
\<close>

definition heap_refs :: "obj list" where
  "heap_refs =
     [Obj [(''type'', Str ''string'')],
      Obj [(''type'', Str ''object''), (''properties'', Ref 0)],
      Obj [(''$ref'', Str ''#/o'')],
      Obj [(''$ref'', Str ''#/o/properties'')],
      Obj [(''$ref'', Str ''#/o'')],
      Obj [(''a'', Ref 2), (''b'', Ref 3), (''c'', Ref 4)],
      Obj [(''type'', Str ''object''), (''properties'', Ref 5), (''o'', Ref 1)]]"

definition rule_first :: rule where
  "rule_first = Strict (JoiObject (Some [(''type'', string_rule)])) False"

definition rule_second :: rule where
  "rule_second = Strict (JoiObject (Some [(''type'', string_rule), (''minLength'', JoiAny)])) False"

text \<open>
  \<^verbatim>\<open>{type: 'object', properties: {a: {oneOf: ['string']}}, required: []}\<close>, and
  \<^verbatim>\<open>{type: 'object', properties: {a: 'string', b: 'boolean'}, required: ['a']}\<close> before
  and after its properties have been resolved.
\<close>

definition heap_oneOf :: "obj list" where
  "heap_oneOf =
     [Arr [Str ''string''],
      Obj [(''oneOf'', Ref 0)],
      Obj [(''a'', Ref 1)],
      Arr [],
      Obj [(''type'', Str ''object''), (''properties'', Ref 2), (''required'', Ref 3)]]"

definition heap_person :: "obj list" where
  "heap_person =
     [Obj [(''a'', Str ''string''), (''b'', Str ''boolean'')],
      Arr [Str ''a''],
      Obj [(''type'', Str ''object''), (''properties'', Ref 0), (''required'', Ref 1)]]"

definition heap_person_after :: "obj list" where
  "heap_person_after =
     heap_person @
     [Obj [(''type'', Str ''string''), (''minLength'', Num 0)], Obj [(''type'', Str ''boolean'')]]"

text \<open>The rules that show a computation to respect \<open>ext\<close>.\<close>

named_theorems frames_intros

text \<open>
  A heap is closed when every reference in it is to one of its objects, as in every
  heap of the runtime. An object is used as a mapping when it is the \<^verbatim>\<open>properties\<close>
  value of an object, and \<open>mappings_kept h h'\<close> says that the objects so used in \<open>h\<close>
  are the same in \<open>h'\<close>. \<open>later h h'\<close> relates a closed heap to a heap reached from it
  by any resolution in which no object used as a mapping was written.
\<close>

definition val_ok :: "obj list \<Rightarrow> val \<Rightarrow> bool" where
  "val_ok h v = (case v of Ref a \<Rightarrow> a < length h | _ \<Rightarrow> True)"

definition closed :: "obj list \<Rightarrow> bool" where
  "closed h = list_all (\<lambda>ob. list_all (val_ok h) (map snd (own_entries ob))) h"

definition is_mapping :: "obj list \<Rightarrow> nat \<Rightarrow> bool" where
  "is_mapping h a = list_ex (\<lambda>ob. own_get ob ''properties'' = Ref a) h"

definition mappings_kept :: "obj list \<Rightarrow> obj list \<Rightarrow> bool" where
  "mappings_kept h h' = list_all (\<lambda>a. is_mapping h a \<longrightarrow> h' ! a = h ! a) [0..<length h]"

definition later :: "obj list \<Rightarrow> obj list \<Rightarrow> bool" where
  "later h h' = (ext h h' \<and> closed h \<and> mappings_kept h h')"

text \<open>
  \<open>simF F f\<close>: when the computation \<open>f\<close> returns a result from a heap without
  allocating, it returns the same result from every later heap, and the heaps it
  leaves are related in the same way. \<open>F\<close> is a property read that may be taken for
  granted in the first heap: \<open>Some (cur, k, x)\<close> stands for \<^verbatim>\<open>cur[k]\<close> being \<open>x\<close>.
\<close>

definition holds :: "obj list \<Rightarrow> (val \<times> string \<times> val) option \<Rightarrow> bool" where
  "holds h F =
     (case F of None \<Rightarrow> True | Some (cur, k, x) \<Rightarrow> k \<noteq> ''minLength'' \<and> get_prop h cur k = Inr x)"

definition simF :: "(val \<times> string \<times> val) option \<Rightarrow> 'a m \<Rightarrow> bool" where
  "simF F f =
     (frames f \<and>
      (\<forall>s s' r s1. later (heap s) (heap s') \<and> holds (heap s) F \<and> f s = (Inr r, s1) \<and>
           length (heap s1) = length (heap s) \<longrightarrow>
         (\<exists>s1'. f s' = (Inr r, s1') \<and> later (heap s1) (heap s1'))))"

text \<open>
  The root \<^verbatim>\<open>{type: 'object', properties: {a: {$ref: '#/d'}, b: {$ref: '#/d'}},
  d: {type: 'string'}}\<close> before and after \<^verbatim>\<open>d\<close> has been resolved.
\<close>

definition heap_twice :: "obj list" where
  "heap_twice =
     [Obj [(''type'', Str ''string'')],
      Obj [(''$ref'', Str ''#/d'')],
      Obj [(''$ref'', Str ''#/d'')],
      Obj [(''a'', Ref 1), (''b'', Ref 2)],
      Obj [(''type'', Str ''object''), (''properties'', Ref 3), (''d'', Ref 0)]]"

definition heap_twice_after :: "obj list" where
  "heap_twice_after = heap_twice[0 := Obj [(''type'', Str ''string''), (''minLength'', Num 0)]]"

text \<open>
  The own keys of an object value, in order, and its own properties as a finite map
  (none for a value that is not an object).
\<close>

definition own_keys :: "obj list \<Rightarrow> val \<Rightarrow> string list" where
  "own_keys h v =
     (case v of Ref a \<Rightarrow> (if a < length h then map fst (own_entries (h ! a)) else []) | _ \<Rightarrow> [])"

definition own_properties :: "obj list \<Rightarrow> val \<Rightarrow> string \<rightharpoonup> val" where
  "own_properties h v =
     (case v of Ref a \<Rightarrow> (if a < length h then map_of (own_entries (h ! a)) else Map.empty)
      | _ \<Rightarrow> Map.empty)"

text \<open>
  An object schema as the merge reads it: a plain object whose \<^verbatim>\<open>properties\<close> is
  absent or a plain object (with distinct keys, as every object has) and whose
  \<^verbatim>\<open>required\<close> is absent or an array.
\<close>

definition object_schema :: "obj list \<Rightarrow> val \<Rightarrow> bool" where
  "object_schema h node =
     (is_plain_object h node \<and>
      (read_prop h node ''properties'' = Undefined \<or>
       (is_plain_object h (read_prop h node ''properties'') \<and>
        distinct (own_keys h (read_prop h node ''properties'')))) \<and>
      (read_prop h node ''required'' = Undefined \<or> isArray h (read_prop h node ''required'')))"

text \<open>
  The root \<^verbatim>\<open>{allOf: [M]}\<close> with \<^verbatim>\<open>M = {type: 'object', properties: {"__proto__":
  'string', a: 'number'}, required: ['__proto__']}\<close>, as \<^verbatim>\<open>JSON.parse\<close> builds it:
  \<^verbatim>\<open>__proto__\<close> is an own property of the mapping.
\<close>

definition heap_proto :: "obj list" where
  "heap_proto =
     [Obj [(''__proto__'', Str ''string''), (''a'', Str ''number'')],
      Arr [Str ''__proto__''],
      Obj [(''type'', Str ''object''), (''properties'', Ref 0), (''required'', Ref 1)],
      Arr [Ref 2],
      Obj [(''allOf'', Ref 3)]]"

text \<open>
  The root \<^verbatim>\<open>{allOf: [M, {$ref: '#/d'}], d: D}\<close> with
  \<^verbatim>\<open>M = {type: 'object', properties: {a: 'string'}, required: ['a']}\<close> and
  \<^verbatim>\<open>D = {type: 'object', properties: {a: 'boolean', b: 'number'}, required: ['a', 'b']}\<close>.
\<close>

definition heap_allOf :: "obj list" where
  "heap_allOf =
     [Obj [(''a'', Str ''string'')],
      Arr [Str ''a''],
      Obj [(''type'', Str ''object''), (''properties'', Ref 0), (''required'', Ref 1)],
      Obj [(''a'', Str ''boolean''), (''b'', Str ''number'')],
      Arr [Str ''a'', Str ''b''],
      Obj [(''type'', Str ''object''), (''properties'', Ref 3), (''required'', Ref 4)],
      Obj [(''$ref'', Str ''#/d'')],
      Arr [Ref 2, Ref 6],
      Obj [(''allOf'', Ref 7), (''d'', Ref 5)]]"

section \<open>Basic facts\<close>

lemma ret_run [simp]: "ret x s = (Inr x, s)"
  by (simp add: ret_def)

lemma throw_run [simp]: "throw e s = (Inl e, s)"
  by (simp add: throw_def)

lemma rd_run [simp]: "rd f s = (f (heap s), s)"
  by (simp add: rd_def)

lemma getM_run [simp]: "getM v k s = (get_prop (heap s) v k, s)"
  by (simp add: getM_def)

lemma arrayM_run [simp]: "arrayM v s = (Inr (isArray (heap s) v, elems (heap s) v), s)"
  by (simp add: arrayM_def)

lemma assert_run [simp]:
  "assert c msg s = (if c then (Inr (), s) else (Inl (AssertionError msg), s))"
  by (simp add: assert_def)

lemma bnd_run: "bnd f g s = (case f s of (Inl e, s') \<Rightarrow> (Inl e, s') | (Inr x, s') \<Rightarrow> g x s')"
  by (simp add: bnd_def)

lemma bnd_Inr [simp]: "f s = (Inr x, s') \<Longrightarrow> bnd f g s = g x s'"
  by (simp add: bnd_def)

lemma bnd_Inl [simp]: "f s = (Inl e, s') \<Longrightarrow> bnd f g s = (Inl e, s')"
  by (simp add: bnd_def)

lemma bnd_InrE:
  assumes "bnd f g s = (Inr y, s'')"
  obtains x s' where "f s = (Inr x, s')" and "g x s' = (Inr y, s'')"
  using assms by (auto simp: bnd_def split: prod.splits sum.splits)

section \<open>Alternations\<close>

text \<open>
  C5. \<^verbatim>\<open>resolveAnyOf\<close> and \<^verbatim>\<open>resolveOneOf\<close> fail with their assertion when the
  keyword's value is not an array. When it is an array whose members resolve to the
  rules \<open>rs\<close>, the result is the alternation of \<open>rs\<close>: not marked required for
  \<^verbatim>\<open>anyOf\<close>, marked required for \<^verbatim>\<open>oneOf\<close>. No rule either of them returns is
  marked otherwise. (The message of \<^verbatim>\<open>resolveOneOf\<close> says "allOf" in the source.)
\<close>

theorem anyOf_optional_oneOf_required:
  "(get_prop (heap s) current ''anyOf'' = Inr a \<and> \<not> isArray (heap s) a \<longrightarrow>
      resolveAnyOf res current s = (Inl (AssertionError ''Expected anyOf to be an array.''), s)) \<and>
   (get_prop (heap s) current ''oneOf'' = Inr a \<and> \<not> isArray (heap s) a \<longrightarrow>
      resolveOneOf res current s = (Inl (AssertionError ''Expected allOf to be an array.''), s)) \<and>
   (get_prop (heap s) current ''anyOf'' = Inr a \<and> isArray (heap s) a \<and>
    mapM res (elems (heap s) a) s = (Inr rs, s') \<longrightarrow>
      resolveAnyOf res current s = (Inr (Try (JoiAlternatives None) rs), s') \<and>
      \<not> marked_required (Try (JoiAlternatives None) rs)) \<and>
   (get_prop (heap s) current ''oneOf'' = Inr a \<and> isArray (heap s) a \<and>
    mapM res (elems (heap s) a) s = (Inr rs, s') \<longrightarrow>
      resolveOneOf res current s = (Inr (Required (Try (JoiAlternatives None) rs)), s') \<and>
      marked_required (Required (Try (JoiAlternatives None) rs))) \<and>
   (resolveAnyOf res current s = (Inr r, s') \<longrightarrow> \<not> marked_required r) \<and>
   (resolveOneOf res current s = (Inr r, s') \<longrightarrow> marked_required r)"
  by (auto simp: resolveAnyOf_def resolveOneOf_def bnd_def split: prod.splits sum.splits if_splits)

theorem anyOf_optional_oneOf_required_witness:
  "resolveAnyOf (resolve cfg0 (Ref 1) 1) (Ref 1) (state_of heap_both) =
     (Inr (Try (JoiAlternatives None) rules_both), state_of heap_both_after) \<and>
   \<not> marked_required (Try (JoiAlternatives None) rules_both) \<and>
   resolveOneOf (resolve cfg0 (Ref 1) 1) (Ref 1) (state_of heap_both) =
     (Inr (Required (Try (JoiAlternatives None) rules_both)), state_of heap_both_after) \<and>
   marked_required (Required (Try (JoiAlternatives None) rules_both)) \<and>
   resolveAnyOf (resolve cfg0 (Ref 1) 1) (Ref 2) (state_of heap_both) =
     (Inl (AssertionError ''Expected anyOf to be an array.''), state_of heap_both) \<and>
   resolveOneOf (resolve cfg0 (Ref 1) 1) (Ref 2) (state_of heap_both) =
     (Inl (AssertionError ''Expected allOf to be an array.''), state_of heap_both)"
proof -
  let ?s = "state_of heap_both" and ?res = "resolve cfg0 (Ref 1) 1"
  have a: "get_prop (heap ?s) (Ref 1) ''anyOf'' = Inr (Ref 0)"
    "get_prop (heap ?s) (Ref 1) ''oneOf'' = Inr (Ref 0)"
    "isArray (heap ?s) (Ref 0)"
    by code_simp+
  have b: "mapM ?res (elems (heap ?s) (Ref 0)) ?s = (Inr rules_both, state_of heap_both_after)"
    by code_simp
  have c: "get_prop (heap ?s) (Ref 2) ''anyOf'' = Inr (Str ''string'')"
    "get_prop (heap ?s) (Ref 2) ''oneOf'' = Inr (Str ''string'')"
    "\<not> isArray (heap ?s) (Str ''string'')"
    by code_simp+
  note arr = anyOf_optional_oneOf_required
    [of ?s "Ref 1" "Ref 0" ?res rules_both "state_of heap_both_after"]
  note str = anyOf_optional_oneOf_required [of ?s "Ref 2" "Str ''string''" ?res]
  from arr a b have 1: "resolveAnyOf ?res (Ref 1) ?s =
      (Inr (Try (JoiAlternatives None) rules_both), state_of heap_both_after) \<and>
      \<not> marked_required (Try (JoiAlternatives None) rules_both)"
    by blast
  from arr a b have 2: "resolveOneOf ?res (Ref 1) ?s =
      (Inr (Required (Try (JoiAlternatives None) rules_both)), state_of heap_both_after) \<and>
      marked_required (Required (Try (JoiAlternatives None) rules_both))"
    by blast
  from str c have 3: "resolveAnyOf ?res (Ref 2) ?s =
      (Inl (AssertionError ''Expected anyOf to be an array.''), ?s)"
    by blast
  from str c have 4: "resolveOneOf ?res (Ref 2) ?s =
      (Inl (AssertionError ''Expected allOf to be an array.''), ?s)"
    by blast
  from 1 2 3 4 show ?thesis by blast
qed

section \<open>The dispatcher's order\<close>

lemma get_prop_node:
  "current \<noteq> Undefined \<Longrightarrow> current \<noteq> Null \<Longrightarrow> \<forall>a. current = Ref a \<longrightarrow> a < length h \<Longrightarrow>
   get_prop h current k = Inr (read_prop h current k)"
  by (cases current) (auto simp: get_prop_def read_prop_def)

text \<open>
  C1 (as amended). \<^verbatim>\<open>resolve\<close> fails with the runtime's TypeError, at its first
  property read, when it is handed \<^verbatim>\<open>undefined\<close> or \<^verbatim>\<open>null\<close>. For every other node
  (a mapping, a string or another primitive) it tests the keywords for truthiness in
  the order \<^verbatim>\<open>type\<close>, \<^verbatim>\<open>anyOf\<close>, \<^verbatim>\<open>allOf\<close>, \<^verbatim>\<open>oneOf\<close>, \<^verbatim>\<open>not\<close>, \<^verbatim>\<open>$ref\<close>,
  \<^verbatim>\<open>enum\<close> and hands the node to the resolver of the first that matches (for
  \<^verbatim>\<open>$ref\<close>: resolves whatever \<^verbatim>\<open>resolveref\<close> returns); a string is then resolved as
  the fresh node \<^verbatim>\<open>{type: node}\<close>; and when nothing matches, a warning for the node is
  recorded and the no-constraint rule is returned, the heap left as it was, unless the
  node lies on a cycle of references, which the warning cannot print as JSON.
\<close>

theorem resolve_dispatch_order:
  assumes "\<forall>a. current = Ref a \<longrightarrow> a < length (heap s)"
  shows "resolve cfg schema (Suc n) current s =
    (if current = Undefined \<or> current = Null then (Inl TypeError, s)
     else if has (heap s) current ''type'' then resolvetype cfg (resolve cfg schema n) current s
     else if has (heap s) current ''anyOf'' then resolveAnyOf (resolve cfg schema n) current s
     else if has (heap s) current ''allOf'' then resolveAllOf cfg schema (resolve cfg schema n) current s
     else if has (heap s) current ''oneOf'' then resolveOneOf (resolve cfg schema n) current s
     else if has (heap s) current ''not'' then resolveNot (resolve cfg schema n) current s
     else if has (heap s) current ''$ref'' then
       (case resolveref cfg schema (heap s) (read_prop (heap s) current ''$ref'') of
          Inl e \<Rightarrow> (Inl e, s)
        | Inr fragment \<Rightarrow> resolve cfg schema n fragment s)
     else if has (heap s) current ''enum'' then (Inr (Valid JoiAny (read_prop (heap s) current ''enum'')), s)
     else if isString current then
       resolvetype cfg (resolve cfg schema n) (Ref (length (heap s)))
         (s\<lparr>heap := heap s @ [Obj [(''type'', current)]]\<rparr>)
     else if serializable (heap s) (length (heap s)) current then
       (Inr JoiAny, s\<lparr>warnings := warnings s @ [current]\<rparr>)
     else (Inl TypeError, s))"
proof (cases "current = Undefined \<or> current = Null")
  case True
  then show ?thesis
    by (auto simp: resolve_body_def bnd_def get_prop_def)
next
  case False
  with assms show ?thesis
    by (simp add: resolve_body_def bnd_def get_prop_node has_def warn_def alloc_def split: sum.splits)
qed

theorem resolve_dispatch_order_witness:
  "resolve cfg0 (Ref 0) (Suc 0) (Ref 0) (state_of [Obj [(''foo'', Str ''bar'')]]) =
     (Inr JoiAny, \<lparr>heap = [Obj [(''foo'', Str ''bar'')]], warnings = [Ref 0]\<rparr>)"
proof -
  have "\<forall>a. Ref 0 = Ref a \<longrightarrow> a < length (heap (state_of [Obj [(''foo'', Str ''bar'')]]))"
    by (simp add: state_of_def)
  note inst = resolve_dispatch_order [OF this, of cfg0 "Ref 0" 0]
  show ?thesis
    unfolding inst by code_simp
qed

text \<open>
  The node \<^verbatim>\<open>{$ref: '#/missing'}\<close>: \<^verbatim>\<open>resolveref\<close> returns \<^verbatim>\<open>undefined\<close> for the
  dangling pointer, \<^verbatim>\<open>resolve\<close> is called on it and fails; and \<^verbatim>\<open>{type: 'object',
  properties: {a: null}}\<close>, where \<^verbatim>\<open>resolve\<close> is called on \<^verbatim>\<open>null\<close>.
\<close>

theorem resolve_undefined_counterexample:
  "resolveref cfg0 (Ref 0) [Obj [(''$ref'', Str ''#/missing'')]] (Str ''#/missing'') = Inr Undefined \<and>
   translate 2 cfg0 (Ref 0) (state_of [Obj [(''$ref'', Str ''#/missing'')]]) =
     (Inl TypeError, state_of [Obj [(''$ref'', Str ''#/missing'')]]) \<and>
   fst (translate 2 cfg0 (Ref 1)
     (state_of [Obj [(''a'', Null)], Obj [(''type'', Str ''object''), (''properties'', Ref 0)]])) =
     Inl TypeError"
  by code_simp

section \<open>Strict mode\<close>

lemma bnd_Inr_iff:
  "bnd f g s = (Inr y, s'') \<longleftrightarrow> (\<exists>x s'. f s = (Inr x, s') \<and> g x s' = (Inr y, s''))"
  by (auto simp: bnd_def split: prod.splits sum.splits)

lemma whenTruthy_Inr:
  "whenTruthy current k method j s = (Inr r, s') \<Longrightarrow> s' = s \<and> (r = j \<or> (\<exists>v. r = method j v))"
  by (auto simp: whenTruthy_def bnd_def split: sum.splits if_splits)

lemma joitype_Strict:
  assumes "joitype cfg res current t f s = (Inr r, s')"
  shows "\<exists>j. r = Strict j (strictMode cfg)"
proof -
  from assms obtain x s1 where
    "(case x of None \<Rightarrow> throw (AssertionError ''Could not resolve type: '')
      | Some j \<Rightarrow> ret (Strict j (strictMode cfg))) s1 = (Inr r, s')"
    unfolding joitype_def Let_def bnd_Inr_iff by (elim exE conjE)
  then show ?thesis by (cases x) auto
qed

lemma alternation_no_strict:
  "resolveAnyOf res current s = (Inr r, s') \<Longrightarrow> strict_setting r = None"
  "resolveOneOf res current s = (Inr r, s') \<Longrightarrow> strict_setting r = None"
  "resolveNot res current s = (Inr r, s') \<Longrightarrow> strict_setting r = None"
  by (auto simp: resolveAnyOf_def resolveOneOf_def resolveNot_def bnd_Inr_iff split: if_splits)

lemma resolvetype_parts:
  assumes "resolvetype cfg res current s = (Inr r, s')"
  obtains t j0 s1 where "get_prop (heap s) current ''type'' = Inr t"
    and "(if isArray (heap s) t
          then bnd (mapM (\<lambda>ty. bnd (getM current ''format'') (joitype cfg res current ty)) (elems (heap s) t))
                 (\<lambda>schemas. ret (JoiAlternatives (Some schemas)))
          else bnd (getM current ''format'') (joitype cfg res current t)) s = (Inr j0, s1)"
    and "strict_setting r = strict_setting j0"
proof -
  from assms obtain t j0 s1 j1 s2 j2 s3 where
    t: "get_prop (heap s) current ''type'' = Inr t"
    and j0: "(if isArray (heap s) t
          then bnd (mapM (\<lambda>ty. bnd (getM current ''format'') (joitype cfg res current ty)) (elems (heap s) t))
                 (\<lambda>schemas. ret (JoiAlternatives (Some schemas)))
          else bnd (getM current ''format'') (joitype cfg res current t)) s = (Inr j0, s1)"
    and d: "whenTruthy current ''description'' Description j0 s1 = (Inr j1, s2)"
      "whenTruthy current ''title'' Label j1 s2 = (Inr j2, s3)"
      "whenTruthy current ''default'' Default j2 s3 = (Inr r, s')"
    by (auto simp: resolvetype_def bnd_Inr_iff)
  from d(1) [THEN whenTruthy_Inr] have "strict_setting j1 = strict_setting j0" by auto
  with d(2) [THEN whenTruthy_Inr] have "strict_setting j2 = strict_setting j0" by auto
  with d(3) [THEN whenTruthy_Inr] have "strict_setting r = strict_setting j0" by auto
  with t j0 show ?thesis by (rule that)
qed

lemma resolvetype_strict:
  assumes "resolvetype cfg res current s = (Inr r, s')"
    and "get_prop (heap s) current ''type'' = Inr t"
  shows "strict_setting r = (if isArray (heap s) t then None else Some (strictMode cfg))"
proof -
  from assms(1) obtain t' j0 s1 where t': "get_prop (heap s) current ''type'' = Inr t'"
    and j0: "(if isArray (heap s) t'
          then bnd (mapM (\<lambda>ty. bnd (getM current ''format'') (joitype cfg res current ty)) (elems (heap s) t'))
                 (\<lambda>schemas. ret (JoiAlternatives (Some schemas)))
          else bnd (getM current ''format'') (joitype cfg res current t')) s = (Inr j0, s1)"
    and r: "strict_setting r = strict_setting j0"
    by (rule resolvetype_parts)
  from t' assms(2) have tt: "t' = t" by simp
  show ?thesis
  proof (cases "isArray (heap s) t")
    case True
    with j0 tt have "\<exists>schemas. j0 = JoiAlternatives (Some schemas)"
      by (auto simp: bnd_Inr_iff)
    with r True show ?thesis by auto
  next
    case False
    with j0 tt obtain f where "joitype cfg res current t f s = (Inr j0, s1)"
      by (auto simp: bnd_Inr_iff)
    from joitype_Strict [OF this] r False show ?thesis by auto
  qed
qed

lemma untyped_result:
  assumes "resolve_body cfg schema res current s = (Inr r, s')"
    and "\<not> has (heap s) current ''type''" and "\<not> has (heap s) current ''anyOf''"
    and "\<not> has (heap s) current ''allOf''" and "\<not> has (heap s) current ''oneOf''"
    and "\<not> has (heap s) current ''not''" and "\<not> has (heap s) current ''$ref''"
    and "\<not> isString current"
  shows "r = JoiAny \<or> r = Valid JoiAny (read_prop (heap s) current ''enum'')"
proof -
  from assms(1) obtain t where t: "get_prop (heap s) current ''type'' = Inr t"
    by (auto simp: resolve_body_def bnd_def split: sum.splits)
  then have ok: "get_prop (heap s) current k = Inr (read_prop (heap s) current k)" for k
    by (cases current) (auto simp: get_prop_def read_prop_def split: if_splits)
  from assms show ?thesis
    by (auto simp: resolve_body_def bnd_def ok has_def warn_def split: if_splits)
qed

text \<open>
  C7 (as amended). \<^verbatim>\<open>strictMode\<close> is applied by \<^verbatim>\<open>joitype\<close> as its last step: every
  rule the type builder returns for a type name, custom types included, is
  \<^verbatim>\<open>strict(strictMode)\<close> of the rule built, and the rule \<^verbatim>\<open>resolvetype\<close> returns for
  a node whose \<^verbatim>\<open>type\<close> is not an array carries that setting under its decorations.
  No other rule gets a strict setting: not the alternation built for a \<^verbatim>\<open>type\<close> that
  is an array (its members have it), not the rules of \<^verbatim>\<open>anyOf\<close>, \<^verbatim>\<open>oneOf\<close> and
  \<^verbatim>\<open>not\<close>, and not the rule \<^verbatim>\<open>resolve\<close> returns for a node without \<^verbatim>\<open>type\<close>,
  combinator and \<^verbatim>\<open>$ref\<close> that is not a string, which is the rule of its \<^verbatim>\<open>enum\<close> or
  the accept-anything fallback.
\<close>

theorem joitype_applies_strict:
  "(joitype cfg res current t f s = (Inr r, s') \<longrightarrow> (\<exists>j. r = Strict j (strictMode cfg))) \<and>
   (resolvetype cfg res current s = (Inr r, s') \<and> get_prop (heap s) current ''type'' = Inr t \<and>
    \<not> isArray (heap s) t \<longrightarrow> strict_setting r = Some (strictMode cfg)) \<and>
   (resolvetype cfg res current s = (Inr r, s') \<and> get_prop (heap s) current ''type'' = Inr t \<and>
    isArray (heap s) t \<longrightarrow> strict_setting r = None) \<and>
   (resolveAnyOf res current s = (Inr r, s') \<longrightarrow> strict_setting r = None) \<and>
   (resolveOneOf res current s = (Inr r, s') \<longrightarrow> strict_setting r = None) \<and>
   (resolveNot res current s = (Inr r, s') \<longrightarrow> strict_setting r = None) \<and>
   (resolve cfg schema (Suc n) current s = (Inr r, s') \<and>
    \<not> has (heap s) current ''type'' \<and> \<not> has (heap s) current ''anyOf'' \<and>
    \<not> has (heap s) current ''allOf'' \<and> \<not> has (heap s) current ''oneOf'' \<and>
    \<not> has (heap s) current ''not'' \<and> \<not> has (heap s) current ''$ref'' \<and> \<not> isString current \<longrightarrow>
      (r = JoiAny \<or> r = Valid JoiAny (read_prop (heap s) current ''enum'')) \<and>
      strict_setting r = None)"
proof (intro conjI impI)
  assume "joitype cfg res current t f s = (Inr r, s')"
  then show "\<exists>j. r = Strict j (strictMode cfg)" by (rule joitype_Strict)
next
  assume "resolvetype cfg res current s = (Inr r, s') \<and>
    get_prop (heap s) current ''type'' = Inr t \<and> \<not> isArray (heap s) t"
  then show "strict_setting r = Some (strictMode cfg)"
    using resolvetype_strict [of cfg res current s r s' t] by simp
next
  assume "resolvetype cfg res current s = (Inr r, s') \<and>
    get_prop (heap s) current ''type'' = Inr t \<and> isArray (heap s) t"
  then show "strict_setting r = None"
    using resolvetype_strict [of cfg res current s r s' t] by simp
next
  assume "resolveAnyOf res current s = (Inr r, s')"
  then show "strict_setting r = None" by (rule alternation_no_strict)
next
  assume "resolveOneOf res current s = (Inr r, s')"
  then show "strict_setting r = None" by (rule alternation_no_strict)
next
  assume "resolveNot res current s = (Inr r, s')"
  then show "strict_setting r = None" by (rule alternation_no_strict)
next
  assume a: "resolve cfg schema (Suc n) current s = (Inr r, s') \<and>
    \<not> has (heap s) current ''type'' \<and> \<not> has (heap s) current ''anyOf'' \<and>
    \<not> has (heap s) current ''allOf'' \<and> \<not> has (heap s) current ''oneOf'' \<and>
    \<not> has (heap s) current ''not'' \<and> \<not> has (heap s) current ''$ref'' \<and> \<not> isString current"
  then have "resolve_body cfg schema (resolve cfg schema n) current s = (Inr r, s')" by simp
  from untyped_result [OF this] a
  show "r = JoiAny \<or> r = Valid JoiAny (read_prop (heap s) current ''enum'')" by blast
next
  assume a: "resolve cfg schema (Suc n) current s = (Inr r, s') \<and>
    \<not> has (heap s) current ''type'' \<and> \<not> has (heap s) current ''anyOf'' \<and>
    \<not> has (heap s) current ''allOf'' \<and> \<not> has (heap s) current ''oneOf'' \<and>
    \<not> has (heap s) current ''not'' \<and> \<not> has (heap s) current ''$ref'' \<and> \<not> isString current"
  then have "resolve_body cfg schema (resolve cfg schema n) current s = (Inr r, s')" by simp
  from untyped_result [OF this] a
  have "r = JoiAny \<or> r = Valid JoiAny (read_prop (heap s) current ''enum'')" by blast
  then show "strict_setting r = None" by auto
qed

theorem joitype_applies_strict_witness:
  "joitype cfg_strict (resolve cfg_strict (Str ''boolean'') 0) (Ref 0) (Str ''boolean'') Undefined
     (state_of [Obj [(''type'', Str ''boolean'')]]) =
     (Inr (Strict JoiBoolean True), state_of [Obj [(''type'', Str ''boolean'')]]) \<and>
   resolvetype cfg_strict (resolve cfg_strict (Str ''boolean'') 0) (Ref 0)
     (state_of [Obj [(''type'', Str ''boolean''), (''title'', Str ''flag'')]]) =
     (Inr (Label (Strict JoiBoolean True) (Str ''flag'')),
      state_of [Obj [(''type'', Str ''boolean''), (''title'', Str ''flag'')]]) \<and>
   strict_setting (Label (Strict JoiBoolean True) (Str ''flag'')) = Some (strictMode cfg_strict) \<and>
   resolveAnyOf (resolve cfg_strict (Ref 1) 1) (Ref 1) (state_of heap_both) =
     (Inr (Try (JoiAlternatives None) [Strict (MinOf (Allow JoiString (Str [])) (Num 0)) True,
                                        Strict JoiBoolean True]), state_of heap_both_after) \<and>
   strict_setting (Try (JoiAlternatives None) [Strict (MinOf (Allow JoiString (Str [])) (Num 0)) True,
                                                Strict JoiBoolean True]) = None \<and>
   resolve cfg_strict (Ref 0) (Suc 0) (Ref 0) (state_of [Obj [(''foo'', Str ''bar'')]]) =
     (Inr JoiAny, \<lparr>heap = [Obj [(''foo'', Str ''bar'')]], warnings = [Ref 0]\<rparr>) \<and>
   strict_setting JoiAny = None"
proof -
  have a: "joitype cfg_strict (resolve cfg_strict (Str ''boolean'') 0) (Ref 0) (Str ''boolean'') Undefined
     (state_of [Obj [(''type'', Str ''boolean'')]]) =
     (Inr (Strict JoiBoolean True), state_of [Obj [(''type'', Str ''boolean'')]])"
    by code_simp
  have b: "resolvetype cfg_strict (resolve cfg_strict (Str ''boolean'') 0) (Ref 0)
     (state_of [Obj [(''type'', Str ''boolean''), (''title'', Str ''flag'')]]) =
     (Inr (Label (Strict JoiBoolean True) (Str ''flag'')),
      state_of [Obj [(''type'', Str ''boolean''), (''title'', Str ''flag'')]])"
    "get_prop (heap (state_of [Obj [(''type'', Str ''boolean''), (''title'', Str ''flag'')]])) (Ref 0) ''type''
      = Inr (Str ''boolean'')"
    "\<not> isArray (heap (state_of [Obj [(''type'', Str ''boolean''), (''title'', Str ''flag'')]])) (Str ''boolean'')"
    by code_simp+
  have c: "resolveAnyOf (resolve cfg_strict (Ref 1) 1) (Ref 1) (state_of heap_both) =
     (Inr (Try (JoiAlternatives None) [Strict (MinOf (Allow JoiString (Str [])) (Num 0)) True,
                                        Strict JoiBoolean True]), state_of heap_both_after)"
    by code_simp
  let ?s = "state_of [Obj [(''foo'', Str ''bar'')]]"
  have d: "resolve cfg_strict (Ref 0) (Suc 0) (Ref 0) ?s =
     (Inr JoiAny, \<lparr>heap = [Obj [(''foo'', Str ''bar'')]], warnings = [Ref 0]\<rparr>)"
    "\<not> has (heap ?s) (Ref 0) ''type''" "\<not> has (heap ?s) (Ref 0) ''anyOf''"
    "\<not> has (heap ?s) (Ref 0) ''allOf''" "\<not> has (heap ?s) (Ref 0) ''oneOf''"
    "\<not> has (heap ?s) (Ref 0) ''not''" "\<not> has (heap ?s) (Ref 0) ''$ref''"
    "\<not> isString (Ref 0)"
    by code_simp+
  note t1 = joitype_applies_strict
    [of cfg_strict "resolve cfg_strict (Str ''boolean'') 0" "Ref 0" "Str ''boolean''" _
      "state_of [Obj [(''type'', Str ''boolean''), (''title'', Str ''flag'')]]"
      "Label (Strict JoiBoolean True) (Str ''flag'')"
      "state_of [Obj [(''type'', Str ''boolean''), (''title'', Str ''flag'')]]"]
  from t1 b have 1: "strict_setting (Label (Strict JoiBoolean True) (Str ''flag'')) = Some (strictMode cfg_strict)"
    by blast
  note t2 = joitype_applies_strict
    [of _ "resolve cfg_strict (Ref 1) 1" "Ref 1" _ _ "state_of heap_both"
      "Try (JoiAlternatives None) [Strict (MinOf (Allow JoiString (Str [])) (Num 0)) True,
                                    Strict JoiBoolean True]" "state_of heap_both_after"]
  from t2 c have 2: "strict_setting (Try (JoiAlternatives None)
      [Strict (MinOf (Allow JoiString (Str [])) (Num 0)) True, Strict JoiBoolean True]) = None"
    by blast
  note t3 = joitype_applies_strict
    [of cfg_strict _ "Ref 0" _ _ ?s JoiAny
      "\<lparr>heap = [Obj [(''foo'', Str ''bar'')]], warnings = [Ref 0]\<rparr>" "Ref 0" 0]
  from t3 d have 3: "strict_setting JoiAny = None"
    by blast
  from a b(1) c d(1) 1 2 3 show ?thesis by blast
qed

theorem strict_everywhere_counterexample:
  "fst (translate 1 cfg_strict (Ref 1) (state_of [Arr [Num 1], Obj [(''enum'', Ref 0)]])) =
     Inr (Valid JoiAny (Ref 0)) \<and>
   strict_setting (Valid JoiAny (Ref 0)) = None"
  by code_simp

section \<open>The reference resolver's assertion\<close>

lemma get_prop_not_assertion: "get_prop h v k \<noteq> Inl (AssertionError msg)"
  by (auto simp: get_prop_def split: val.splits)

lemma walk_not_assertion: "walk h v ps \<noteq> Inl (AssertionError msg)"
  by (induction ps arbitrary: v) (auto simp: get_prop_not_assertion split: sum.splits)

lemma registry_lookup_not_assertion: "registry_lookup cfg h ident \<noteq> Inl (AssertionError msg)"
  by (auto simp: registry_lookup_def bndE_def get_prop_not_assertion split: sum.splits)

lemma valid_schema_truthy: "valid_schema h schema \<Longrightarrow> truthy schema"
  by (cases schema) (auto simp: valid_schema_def is_plain_object_def)

text \<open>
  C10. Once the root schema has passed the validation at the entry of \<^verbatim>\<open>translate\<close>
  (in the heap \<open>h0\<close> of that moment), the assertion of \<^verbatim>\<open>resolveref\<close> cannot fail: for
  every \<^verbatim>\<open>$ref\<close> value, every configuration (with or without a registry) and every
  later heap, \<^verbatim>\<open>resolveref\<close> does not end in an assertion error.
\<close>

theorem reference_assertion_unreachable:
  assumes "valid_schema h0 schema"
  shows "resolveref cfg schema h value \<noteq> Inl (AssertionError msg)"
proof (cases "value")
  case (Str v)
  from assms have "truthy schema" by (rule valid_schema_truthy)
  then show ?thesis
    using registry_lookup_not_assertion [of cfg h _ msg] walk_not_assertion [of h _ _ msg]
    by (auto simp: resolveref_def Str bndE_def Let_def split: sum.splits)
qed (simp_all add: resolveref_def)

theorem reference_assertion_unreachable_witness:
  "valid_schema [Obj [(''$ref'', Str ''other#/definitions/x'')]] (Ref 0) \<and>
   resolveref (cfg0\<lparr>subSchemas := Null\<rparr>) (Ref 0) [Obj [(''$ref'', Str ''other#/definitions/x'')]]
     (Str ''other#/definitions/x'')
   \<noteq> Inl (AssertionError ''Can not find schema reference: other#/definitions/x.'')"
proof -
  have v: "valid_schema [Obj [(''$ref'', Str ''other#/definitions/x'')]] (Ref 0)"
    by code_simp
  from v reference_assertion_unreachable [OF v] show ?thesis by blast
qed

section \<open>Negation\<close>

text \<open>
  C6. \<^verbatim>\<open>resolveNot\<close> fails with its assertion when the value of \<^verbatim>\<open>not\<close> is not an
  array. When it is an array whose members resolve to the rules \<open>rs\<close>, the rule built
  accepts an input exactly when the alternation of \<open>rs\<close> does not accept it: it forbids
  the inputs that satisfy the alternation and constrains no other.
\<close>

theorem not_forbids_alternation:
  "(get_prop (heap s) current ''not'' = Inr a \<and> \<not> isArray (heap s) a \<longrightarrow>
      resolveNot res current s = (Inl (AssertionError ''Expected Not to be an array.''), s)) \<and>
   (get_prop (heap s) current ''not'' = Inr a \<and> isArray (heap s) a \<and>
    mapM res (elems (heap s) a) s = (Inr rs, s') \<longrightarrow>
      (\<exists>r. resolveNot res current s = (Inr r, s') \<and>
           (\<forall>v. accepts prim r v = (\<not> accepts prim (Try (JoiAlternatives None) rs) v))))"
  by (auto simp: resolveNot_def bnd_def)

theorem not_forbids_alternation_witness:
  "(\<exists>r. resolveNot (resolve cfg0 (Ref 1) 1) (Ref 1) (state_of heap_both) =
          (Inr r, state_of heap_both_after) \<and>
        \<not> accepts prim_example r (Str ''text'') \<and> \<not> accepts prim_example r (Bool True) \<and>
        accepts prim_example r (Num 5)) \<and>
   resolveNot (resolve cfg0 (Ref 1) 1) (Ref 2) (state_of heap_both) =
     (Inl (AssertionError ''Expected Not to be an array.''), state_of heap_both)"
proof -
  let ?s = "state_of heap_both" and ?res = "resolve cfg0 (Ref 1) 1"
  have a: "get_prop (heap ?s) (Ref 1) ''not'' = Inr (Ref 0)" "isArray (heap ?s) (Ref 0)"
    by code_simp+
  have b: "mapM ?res (elems (heap ?s) (Ref 0)) ?s = (Inr rules_both, state_of heap_both_after)"
    by code_simp
  have c: "get_prop (heap ?s) (Ref 2) ''not'' = Inr (Str ''string'')"
    "\<not> isArray (heap ?s) (Str ''string'')"
    by code_simp+
  have d: "accepts prim_example (Try (JoiAlternatives None) rules_both) (Str ''text'')"
    "accepts prim_example (Try (JoiAlternatives None) rules_both) (Bool True)"
    "\<not> accepts prim_example (Try (JoiAlternatives None) rules_both) (Num 5)"
    by code_simp+
  from not_forbids_alternation
    [of ?s "Ref 1" "Ref 0" ?res rules_both "state_of heap_both_after" prim_example] a b
  obtain r where r: "resolveNot ?res (Ref 1) ?s = (Inr r, state_of heap_both_after)"
    "\<forall>v. accepts prim_example r v = (\<not> accepts prim_example (Try (JoiAlternatives None) rules_both) v)"
    by blast
  from not_forbids_alternation [of ?s "Ref 2" "Str ''string''" ?res] c
  have e: "resolveNot ?res (Ref 2) ?s = (Inl (AssertionError ''Expected Not to be an array.''), ?s)"
    by blast
  from r d e show ?thesis by blast
qed

section \<open>What resolution writes\<close>

lemma ext_refl [simp]: "ext h h"
  by (simp add: ext_def)

lemma own_get_set_own_same: "own_get (set_own (Obj ps) k v) k = v"
  by (simp add: lookup_def update_conv')

lemma own_get_set_own_other: "k' \<noteq> k \<Longrightarrow> own_get (set_own ob k v) k' = own_get ob k'"
  by (cases ob) (simp_all add: lookup_def update_conv')

lemma set_own_Arr_id: "set_own (Arr xs) k v = Arr xs"
  by simp

lemma ext_trans:
  assumes "ext h1 h2" and "ext h2 h3"
  shows "ext h1 h3"
  unfolding ext_def
proof (intro conjI allI impI)
  from assms show "length h1 \<le> length h3" by (simp add: ext_def)
next
  fix a assume a: "a < length h1"
  with assms have a2: "a < length h2" by (simp add: ext_def)
  from assms(1) a have 12: "h2 ! a = h1 ! a \<or>
    (own_get (h1 ! a) ''minLength'' = Undefined \<and> h2 ! a = set_own (h1 ! a) ''minLength'' (Num 0))"
    by (simp add: ext_def)
  from assms(2) a2 have 23: "h3 ! a = h2 ! a \<or>
    (own_get (h2 ! a) ''minLength'' = Undefined \<and> h3 ! a = set_own (h2 ! a) ''minLength'' (Num 0))"
    by (simp add: ext_def)
  show "h3 ! a = h1 ! a \<or>
    (own_get (h1 ! a) ''minLength'' = Undefined \<and> h3 ! a = set_own (h1 ! a) ''minLength'' (Num 0))"
  proof (cases "h1 ! a")
    case (Obj ps)
    with 12 23 show ?thesis by (auto simp: own_get_set_own_same simp del: own_get.simps set_own.simps)
  next
    case (Arr xs)
    with 12 23 show ?thesis by auto
  qed
qed

lemma ext_append: "ext h (h @ [ob])"
  by (simp add: ext_def nth_append)

lemma ext_update:
  "a < length h \<Longrightarrow> own_get (h ! a) ''minLength'' = Undefined \<Longrightarrow>
   ext h (h[a := set_own (h ! a) ''minLength'' (Num 0)])"
  by (simp add: ext_def nth_list_update)

lemma frames_ret [frames_intros]: "frames (ret x)"
  by (simp add: frames_def)

lemma frames_throw [frames_intros]: "frames (throw e)"
  by (simp add: frames_def)

lemma frames_rd [frames_intros]: "frames (rd f)"
  by (simp add: frames_def)

lemma frames_getM [frames_intros]: "frames (getM v k)"
  by (simp add: frames_def)

lemma frames_arrayM [frames_intros]: "frames (arrayM v)"
  by (simp add: frames_def)

lemma frames_assert [frames_intros]: "frames (assert c msg)"
  by (simp add: frames_def)

lemma frames_alloc [frames_intros]: "frames (alloc ob)"
  by (auto simp: frames_def alloc_def ext_append)

lemma frames_warn [frames_intros]: "frames (warn v)"
  by (auto simp: frames_def warn_def split: if_splits)

lemma frames_bnd [frames_intros]:
  assumes "frames f" and "\<And>x. frames (g x)"
  shows "frames (bnd f g)"
  unfolding frames_def
proof (intro allI impI)
  fix s x s' assume r: "bnd f g s = (x, s')"
  obtain y s1 where f: "f s = (y, s1)" by (cases "f s")
  with assms(1) have 1: "ext (heap s) (heap s1)" by (simp add: frames_def)
  show "ext (heap s) (heap s')"
  proof (cases y)
    case (Inl e)
    with f r 1 show ?thesis by (simp add: bnd_def)
  next
    case (Inr v)
    with f r have "g v s1 = (x, s')" by (simp add: bnd_def)
    with assms(2) have "ext (heap s1) (heap s')" by (simp add: frames_def)
    with 1 show ?thesis by (rule ext_trans)
  qed
qed

lemma frames_if [frames_intros]:
  "(c \<Longrightarrow> frames f) \<Longrightarrow> (\<not> c \<Longrightarrow> frames g) \<Longrightarrow> frames (if c then f else g)"
  by simp

lemma frames_case_prod [frames_intros]:
  "(\<And>a b. frames (f a b)) \<Longrightarrow> frames (case p of (a, b) \<Rightarrow> f a b)"
  by (cases p) simp

lemma frames_case_option [frames_intros]:
  "frames f \<Longrightarrow> (\<And>x. frames (g x)) \<Longrightarrow> frames (case v of None \<Rightarrow> f | Some x \<Rightarrow> g x)"
  by (cases v) simp_all

lemma frames_mapM [frames_intros]:
  "(\<And>x. frames (f x)) \<Longrightarrow> frames (mapM f xs)"
  by (induction xs) (auto intro!: frames_intros)

lemma frames_defaultMinLength [frames_intros]: "frames (defaultMinLength current)"
  unfolding frames_def
proof (intro allI impI)
  fix s x s' assume r: "defaultMinLength current s = (x, s')"
  show "ext (heap s) (heap s')"
  proof (cases "get_prop (heap s) current ''minLength'' = Inr Undefined \<and> isObject current")
    case False
    with r show ?thesis
      by (cases current)
        (auto simp: defaultMinLength_def bnd_def isUndefined_def setM_def get_prop_def
          split: sum.splits if_splits)
  next
    case True
    then obtain a where a: "current = Ref a" by (cases current) auto
    with True have l: "a < length (heap s)" and u: "own_get (heap s ! a) ''minLength'' = Undefined"
      by (auto simp: get_prop_def split: if_splits)
    show ?thesis
    proof (cases "heap s ! a")
      case (Obj ps)
      with r a l u have "heap s' = (heap s)[a := set_own (heap s ! a) ''minLength'' (Num 0)]"
        by (auto simp: defaultMinLength_def bnd_def isUndefined_def setM_def get_prop_def)
      with l u show ?thesis by (simp add: ext_update del: set_own.simps)
    next
      case (Arr xs)
      with r a l u show ?thesis
        by (auto simp: defaultMinLength_def bnd_def isUndefined_def setM_def get_prop_def)
    qed
  qed
qed

lemma frames_whenNumber [frames_intros]: "frames (whenNumber current k method j)"
  unfolding whenNumber_def by (intro frames_intros)

lemma frames_whenTruthy [frames_intros]: "frames (whenTruthy current k method j)"
  unfolding whenTruthy_def by (intro frames_intros)

lemma frames_number [frames_intros]: "frames (number current)"
  unfolding number_def by (intro frames_intros)

lemma frames_date [frames_intros]: "frames (date current)"
  unfolding date_def by (intro frames_intros)

lemma frames_binary [frames_intros]: "frames (binary current)"
  unfolding binary_def by (intro frames_intros)

lemma frames_regularString [frames_intros]: "frames (regularString current j)"
  unfolding regularString_def by (intro frames_intros)

lemma frames_string [frames_intros]: "frames (string current)"
  unfolding string_def by (intro frames_intros)

lemma frames_mergeObject [frames_intros]: "frames (mergeObject cfg schema current)"
  unfolding mergeObject_def by (intro frames_intros)

lemma frames_mergeArray [frames_intros]: "frames (mergeArray cfg schema current)"
  unfolding mergeArray_def by (intro frames_intros)

lemma frames_checkAllOfItem [frames_intros]: "frames (checkAllOfItem cfg schema type item)"
  unfolding checkAllOfItem_def by (intro frames_intros)

lemma frames_resolveAsArray:
  "(\<And>v. frames (res v)) \<Longrightarrow> frames (resolveAsArray res v)"
  unfolding resolveAsArray_def by (intro frames_intros)

lemma frames_array:
  "(\<And>v. frames (res v)) \<Longrightarrow> frames (array res current)"
  unfolding array_def by (intro frames_intros frames_resolveAsArray)

lemma frames_resolveproperty:
  "(\<And>v. frames (res v)) \<Longrightarrow> frames (resolveproperty res current key)"
  unfolding resolveproperty_def by (intro frames_intros)

lemma frames_resolveproperties:
  "(\<And>v. frames (res v)) \<Longrightarrow> frames (resolveproperties res current)"
  unfolding resolveproperties_def by (intro frames_intros frames_resolveproperty)

lemma frames_object:
  "(\<And>v. frames (res v)) \<Longrightarrow> frames (object res current)"
  unfolding object_def by (intro frames_intros frames_resolveproperties)

lemma frames_joitype:
  "(\<And>v. frames (res v)) \<Longrightarrow> frames (joitype cfg res current t f)"
  unfolding joitype_def Let_def by (intro frames_intros frames_array frames_object)

lemma frames_resolvetype:
  "(\<And>v. frames (res v)) \<Longrightarrow> frames (resolvetype cfg res current)"
  unfolding resolvetype_def by (intro frames_intros frames_joitype)

lemma frames_resolveAnyOf:
  "(\<And>v. frames (res v)) \<Longrightarrow> frames (resolveAnyOf res current)"
  unfolding resolveAnyOf_def by (intro frames_intros)

lemma frames_resolveOneOf:
  "(\<And>v. frames (res v)) \<Longrightarrow> frames (resolveOneOf res current)"
  unfolding resolveOneOf_def by (intro frames_intros)

lemma frames_resolveNot:
  "(\<And>v. frames (res v)) \<Longrightarrow> frames (resolveNot res current)"
  unfolding resolveNot_def by (intro frames_intros)

lemma frames_resolveAllOf:
  "(\<And>v. frames (res v)) \<Longrightarrow> frames (resolveAllOf cfg schema res current)"
  unfolding resolveAllOf_def by (intro frames_intros)

lemma frames_resolve_body:
  "(\<And>v. frames (res v)) \<Longrightarrow> frames (resolve_body cfg schema res current)"
  unfolding resolve_body_def
  by (intro frames_intros frames_resolvetype frames_resolveAnyOf frames_resolveOneOf
      frames_resolveAllOf frames_resolveNot)

lemma frames_resolve: "frames (resolve cfg schema n current)"
  by (induction n arbitrary: current) (simp_all add: frames_throw frames_resolve_body)

lemma frames_translate: "frames (translate fuel cfg schema)"
  unfolding translate_def by (intro frames_intros frames_resolve)

text \<open>
  C8 (as amended). Whether \<^verbatim>\<open>translate\<close> returns or fails, every object of the input
  is still at its address and is either unchanged or differs in one property only:
  \<^verbatim>\<open>minLength\<close>, undefined before, is now \<^verbatim>\<open>0\<close> (the default \<^verbatim>\<open>regularString\<close> writes
  into a string node). No key is removed and no other key is added or rewritten.
\<close>

theorem translate_writes_only_minLength:
  assumes "translate fuel cfg schema s = (x, s')" and "a < length (heap s)"
  shows "a < length (heap s') \<and>
     (heap s' ! a = heap s ! a \<or>
      (own_get (heap s ! a) ''minLength'' = Undefined \<and>
       heap s' ! a = set_own (heap s ! a) ''minLength'' (Num 0)))"
proof -
  from frames_translate assms(1) have "ext (heap s) (heap s')"
    unfolding frames_def by blast
  with assms(2) show ?thesis
    unfolding ext_def by auto
qed

theorem translate_writes_only_minLength_witness:
  "0 < length (heap (state_of heap_string_after)) \<and>
     (heap (state_of heap_string_after) ! 0 = heap (state_of heap_string) ! 0 \<or>
      (own_get (heap (state_of heap_string) ! 0) ''minLength'' = Undefined \<and>
       heap (state_of heap_string_after) ! 0 =
         set_own (heap (state_of heap_string) ! 0) ''minLength'' (Num 0)))"
proof -
  have t: "translate 1 cfg0 (Ref 0) (state_of heap_string) = (Inr string_rule, state_of heap_string_after)"
    by code_simp
  have l: "0 < length (heap (state_of heap_string))"
    by code_simp
  from translate_writes_only_minLength [OF t l] show ?thesis .
qed

theorem nodes_read_only_counterexample:
  "snd (translate 1 cfg0 (Ref 0) (state_of [Obj [(''type'', Str ''string'')]])) =
     state_of [Obj [(''type'', Str ''string''), (''minLength'', Num 0)]]"
  by code_simp

section \<open>Looking a reference up twice\<close>


lemma ext_length: "ext h h' \<Longrightarrow> a < length h \<Longrightarrow> a < length h'"
  by (simp add: ext_def)

lemma ext_own_get_other:
  assumes "ext h h'" and "a < length h" and "k \<noteq> ''minLength''"
  shows "own_get (h' ! a) k = own_get (h ! a) k"
  using assms by (auto simp: ext_def own_get_set_own_other simp del: set_own.simps)

lemma ext_own_get_truthy:
  assumes "ext h h'" and "a < length h" and "truthy (own_get (h ! a) k)"
  shows "own_get (h' ! a) k = own_get (h ! a) k"
proof (cases "k = ''minLength''")
  case True
  with assms show ?thesis by (auto simp: ext_def)
next
  case False
  with assms show ?thesis by (simp add: ext_own_get_other)
qed

lemma ext_own_get_falsy:
  assumes "ext h h'" and "a < length h" and "\<not> truthy (own_get (h ! a) k)"
  shows "\<not> truthy (own_get (h' ! a) k)"
proof (cases "k = ''minLength''")
  case True
  from assms(1,2) have "h' ! a = h ! a \<or>
      (own_get (h ! a) ''minLength'' = Undefined \<and> h' ! a = set_own (h ! a) ''minLength'' (Num 0))"
    by (simp add: ext_def)
  with assms(3) True show ?thesis
    by (cases "h ! a") (auto simp: lookup_def update_conv')
next
  case False
  with assms show ?thesis by (simp add: ext_own_get_other)
qed

lemma get_prop_ext_truthy:
  assumes "ext h h'" and "get_prop h v k = Inr x" and "truthy x"
  shows "get_prop h' v k = Inr x"
  using assms
  by (cases v) (auto simp: get_prop_def ext_length ext_own_get_truthy split: if_splits)

lemma get_prop_ext_falsy:
  assumes "ext h h'" and "get_prop h v k = Inr x" and "\<not> truthy x"
  shows "\<exists>x'. get_prop h' v k = Inr x' \<and> \<not> truthy x'"
  using assms
  by (cases v) (auto simp: get_prop_def ext_length ext_own_get_falsy split: if_splits)

lemma walk_falsy: "\<not> truthy v \<Longrightarrow> walk h v ps = Inr v"
  by (cases ps) simp_all

lemma get_prop_ext_other:
  assumes "ext h h'" and "k \<noteq> ''minLength''" and "get_prop h v k = Inr x"
  shows "get_prop h' v k = Inr x"
  using assms
  by (cases v) (auto simp: get_prop_def ext_length ext_own_get_other split: if_splits)

lemma registry_lookup_ext:
  assumes "ext h h'" and "registry_lookup cfg h ident = Inr r"
  shows "\<exists>r'. registry_lookup cfg h' ident = Inr r' \<and> (if truthy r then r' = r else \<not> truthy r')"
proof (cases "ident \<noteq> [] \<and> truthy (subSchemas cfg)")
  case False
  with assms show ?thesis by (auto simp: registry_lookup_def)
next
  case True
  with assms(2) obtain r1 where r1: "get_prop h (subSchemas cfg) ident = Inr r1"
    by (auto simp: registry_lookup_def bndE_def split: sum.splits)
  show ?thesis
  proof (cases "truthy r1")
    case t: True
    with assms(1) r1 have "get_prop h' (subSchemas cfg) ident = Inr r1" by (rule get_prop_ext_truthy)
    with True t r1 assms(2) show ?thesis by (auto simp: registry_lookup_def bndE_def)
  next
    case f: False
    with assms(1) r1 obtain r1' where r1': "get_prop h' (subSchemas cfg) ident = Inr r1'" "\<not> truthy r1'"
      using get_prop_ext_falsy by blast
    from True f r1 assms(2) have r2: "get_prop h (subSchemas cfg) (butlast ident) = Inr r"
      by (auto simp: registry_lookup_def bndE_def)
    show ?thesis
    proof (cases "truthy r")
      case True
      with assms(1) r2 have "get_prop h' (subSchemas cfg) (butlast ident) = Inr r"
        by (rule get_prop_ext_truthy)
      with \<open>ident \<noteq> [] \<and> truthy (subSchemas cfg)\<close> r1' True show ?thesis
        by (auto simp: registry_lookup_def bndE_def)
    next
      case False
      with assms(1) r2 obtain r' where "get_prop h' (subSchemas cfg) (butlast ident) = Inr r'" "\<not> truthy r'"
        using get_prop_ext_falsy by blast
      with \<open>ident \<noteq> [] \<and> truthy (subSchemas cfg)\<close> r1' False show ?thesis
        by (auto simp: registry_lookup_def bndE_def)
    qed
  qed
qed

subsection \<open>Results in a later heap\<close>

lemma simF_I:
  assumes "frames f"
    and "\<And>s s' r s1. later (heap s) (heap s') \<Longrightarrow> holds (heap s) F \<Longrightarrow> f s = (Inr r, s1) \<Longrightarrow>
           length (heap s1) = length (heap s) \<Longrightarrow> \<exists>s1'. f s' = (Inr r, s1') \<and> later (heap s1) (heap s1')"
  shows "simF F f"
  using assms unfolding simF_def by blast

lemma simF_D:
  assumes "simF F f" and "later (heap s) (heap s')" and "holds (heap s) F" and "f s = (Inr r, s1)"
    and "length (heap s1) = length (heap s)"
  shows "\<exists>s1'. f s' = (Inr r, s1') \<and> later (heap s1) (heap s1')"
  using assms unfolding simF_def by blast

lemma simF_frames: "simF F f \<Longrightarrow> frames f"
  by (simp add: simF_def)

lemma simF_weaken: "simF None f \<Longrightarrow> simF F f"
  unfolding simF_def holds_def by (simp split: option.splits) blast

lemma frames_length: "frames f \<Longrightarrow> f s = (x, s1) \<Longrightarrow> length (heap s) \<le> length (heap s1)"
  unfolding frames_def ext_def by blast

lemma frames_ext: "frames f \<Longrightarrow> f s = (x, s1) \<Longrightarrow> ext (heap s) (heap s1)"
  unfolding frames_def by blast

lemma holds_ext: "holds h F \<Longrightarrow> ext h h1 \<Longrightarrow> holds h1 F"
  by (auto simp: holds_def get_prop_ext_other split: option.splits)

lemma simF_bnd:
  assumes "simF F f" and "\<And>x. simF F (g x)"
  shows "simF F (bnd f g)"
proof (rule simF_I)
  from assms show "frames (bnd f g)" by (intro frames_bnd simF_frames)
next
  fix s s' :: state and r s2
  assume l: "later (heap s) (heap s')" and h: "holds (heap s) F"
    and run: "bnd f g s = (Inr r, s2)" and len: "length (heap s2) = length (heap s)"
  from run obtain x s1 where f: "f s = (Inr x, s1)" and g: "g x s1 = (Inr r, s2)"
    by (auto simp: bnd_Inr_iff)
  from assms(1) f have e1: "ext (heap s) (heap s1)" by (intro frames_ext simF_frames)
  from assms(2) g have "ext (heap s1) (heap s2)" by (intro frames_ext simF_frames)
  with e1 len have len1: "length (heap s1) = length (heap s)" "length (heap s2) = length (heap s1)"
    by (auto simp: ext_def)
  from simF_D [OF assms(1) l h f len1(1)] obtain s1' where
    f': "f s' = (Inr x, s1')" and l1: "later (heap s1) (heap s1')" by blast
  from h e1 have h1: "holds (heap s1) F" by (rule holds_ext)
  from simF_D [OF assms(2) l1 h1 g len1(2)] obtain s2' where
    "g x s1' = (Inr r, s2')" "later (heap s2) (heap s2')" by blast
  with f' show "\<exists>s2'. bnd f g s' = (Inr r, s2') \<and> later (heap s2) (heap s2')" by simp
qed

lemma simF_ret: "simF F (ret x)"
proof (rule simF_I)
  show "frames (ret x)" by (rule frames_ret)
qed auto

lemma simF_throw: "simF F (throw e)"
proof (rule simF_I)
  show "frames (throw e)" by (rule frames_throw)
qed auto

lemma simF_assert: "simF F (assert c msg)"
proof (rule simF_I)
  show "frames (assert c msg)" by (rule frames_assert)
qed (auto split: if_splits)

lemma simF_alloc: "simF F (alloc ob)"
proof (rule simF_I)
  show "frames (alloc ob)" by (rule frames_alloc)
qed (auto simp: alloc_def)

lemma simF_if:
  "(c \<Longrightarrow> simF F f) \<Longrightarrow> (\<not> c \<Longrightarrow> simF F g) \<Longrightarrow> simF F (if c then f else g)"
  by simp

lemma simF_case_prod:
  "(\<And>a b. simF F (f a b)) \<Longrightarrow> simF F (case p of (a, b) \<Rightarrow> f a b)"
  by (cases p) simp

lemma simF_case_option:
  "simF F f \<Longrightarrow> (\<And>x. simF F (g x)) \<Longrightarrow> simF F (case v of None \<Rightarrow> f | Some x \<Rightarrow> g x)"
  by (cases v) simp_all

lemma simF_mapM:
  "(\<And>x. simF F (f x)) \<Longrightarrow> simF F (mapM f xs)"
proof (induction xs)
  case Nil
  show ?case unfolding mapM.simps by (rule simF_ret)
next
  case (Cons x xs)
  show ?case
    unfolding mapM.simps by (intro simF_bnd simF_ret Cons)
qed

lemma later_ext: "later h h' \<Longrightarrow> ext h h'"
  by (simp add: later_def)

lemma simF_getM:
  assumes "k \<noteq> ''minLength''"
  shows "simF F (getM cur k)"
proof (rule simF_I)
  show "frames (getM cur k)" by (rule frames_getM)
next
  fix s s' :: state and r s1
  assume l: "later (heap s) (heap s')" and run: "getM cur k s = (Inr r, s1)"
  then have "get_prop (heap s) cur k = Inr r" "s1 = s" by auto
  with get_prop_ext_other [OF later_ext [OF l] assms, of cur r] l
  show "\<exists>s1'. getM cur k s' = (Inr r, s1') \<and> later (heap s1) (heap s1')" by simp
qed

lemma simF_read:
  assumes "k \<noteq> ''minLength''" and "\<And>x. simF (Some (cur, k, x)) (g x)"
  shows "simF F (bnd (getM cur k) g)"
proof (rule simF_I)
  from assms(2) show "frames (bnd (getM cur k) g)" by (intro frames_intros simF_frames)
next
  fix s s' :: state and r s2
  assume l: "later (heap s) (heap s')"
    and run: "bnd (getM cur k) g s = (Inr r, s2)" and len: "length (heap s2) = length (heap s)"
  from run obtain x where f: "get_prop (heap s) cur k = Inr x" and g: "g x s = (Inr r, s2)"
    by (auto simp: bnd_Inr_iff)
  from f assms(1) have h: "holds (heap s) (Some (cur, k, x))" by (simp add: holds_def)
  from simF_D [OF assms(2) l h g len] obtain s2' where
    "g x s' = (Inr r, s2')" "later (heap s2) (heap s2')" by blast
  moreover have "get_prop (heap s') cur k = Inr x"
    by (rule get_prop_ext_other [OF later_ext [OF l] assms(1) f])
  ultimately show "\<exists>s2'. bnd (getM cur k) g s' = (Inr r, s2') \<and> later (heap s2) (heap s2')"
    by (auto simp: bnd_def)
qed

lemma simF_whenTruthy: "simF F (whenTruthy cur k method j)"
proof (rule simF_I)
  show "frames (whenTruthy cur k method j)" by (rule frames_whenTruthy)
next
  fix s s' :: state and r s1
  assume l: "later (heap s) (heap s')" and run: "whenTruthy cur k method j s = (Inr r, s1)"
  from run obtain v where v: "get_prop (heap s) cur k = Inr v"
    and r: "r = (if truthy v then method j v else j)" and s1: "s1 = s"
    by (auto simp: whenTruthy_def bnd_Inr_iff)
  show "\<exists>s1'. whenTruthy cur k method j s' = (Inr r, s1') \<and> later (heap s1) (heap s1')"
  proof (cases "truthy v")
    case True
    from later_ext [OF l] v True have "get_prop (heap s') cur k = Inr v" by (rule get_prop_ext_truthy)
    with r l s1 show ?thesis by (auto simp: whenTruthy_def bnd_def)
  next
    case False
    from get_prop_ext_falsy [OF later_ext [OF l] v False]
    obtain v' where "get_prop (heap s') cur k = Inr v'" "\<not> truthy v'" by blast
    with r l s1 False show ?thesis by (auto simp: whenTruthy_def bnd_def)
  qed
qed

lemma simF_whenNumber:
  "k \<noteq> ''minLength'' \<Longrightarrow> simF F (whenNumber cur k method j)"
  unfolding whenNumber_def by (rule simF_read, assumption, rule simF_ret)

lemma val_ok_simps [simp]:
  "val_ok h (Ref a) = (a < length h)" "val_ok h Undefined" "val_ok h Null" "val_ok h (Bool b)"
  "val_ok h (Num n)" "val_ok h (Str t)"
  by (simp_all add: val_ok_def)

lemma closed_nth: "closed h \<Longrightarrow> a < length h \<Longrightarrow> v \<in> snd ` set (own_entries (h ! a)) \<Longrightarrow> val_ok h v"
  by (auto simp: closed_def list_all_iff)

lemma own_get_entries:
  "own_get ob k \<in> snd ` set (own_entries ob) \<or> (\<forall>a. own_get ob k \<noteq> Ref a)"
proof (cases ob)
  case (Obj ps)
  show ?thesis
  proof (cases "map_of ps k")
    case None
    with Obj show ?thesis by (simp add: lookup_def)
  next
    case (Some v)
    then have "(k, v) \<in> set ps" by (rule map_of_SomeD)
    then have "v \<in> snd ` set ps" by force
    with Obj Some show ?thesis by (simp add: lookup_def)
  qed
next
  case (Arr xs)
  have "map snd (own_entries (Arr xs)) = xs" by (simp add: map_snd_zip)
  then have e: "snd ` set (own_entries (Arr xs)) = set xs" by (metis set_map)
  show ?thesis
    unfolding Arr e by (simp split: option.splits)
qed

lemma closed_get_prop:
  assumes "closed h" and "get_prop h cur k = Inr v"
  shows "val_ok h v"
proof (cases v)
  case (Ref b)
  with assms(2) obtain a where a: "cur = Ref a" "a < length h" "own_get (h ! a) k = Ref b"
    by (cases cur) (auto simp: get_prop_def split: if_splits)
  with own_get_entries [of "h ! a" k] have "Ref b \<in> snd ` set (own_entries (h ! a))" by auto
  with assms(1) a(2) have "val_ok h (Ref b)" by (rule closed_nth)
  with Ref show ?thesis by simp
qed simp_all

lemma ext_array_ok:
  assumes "ext h h'" and "val_ok h v"
  shows "isArray h' v = isArray h v \<and> elems h' v = elems h v"
proof (cases v)
  case (Ref a)
  with assms(2) have a: "a < length h" by simp
  with assms(1) have a': "a < length h'" by (rule ext_length)
  from assms(1) a have d: "h' ! a = h ! a \<or> h' ! a = set_own (h ! a) ''minLength'' (Num 0)"
    by (auto simp: ext_def)
  show ?thesis
  proof (cases "h ! a")
    case (Obj ps)
    with d Ref a a' show ?thesis by (auto simp: isArray_def elems_def)
  next
    case (Arr xs)
    with d Ref a a' show ?thesis by (auto simp: isArray_def elems_def)
  qed
qed (simp_all add: isArray_def elems_def)

lemma later_closed: "later h h' \<Longrightarrow> closed h"
  by (simp add: later_def)

lemma simF_arrayM: "simF (Some (cur, k, v)) (arrayM v)"
proof (rule simF_I)
  show "frames (arrayM v)" by (rule frames_arrayM)
next
  fix s s' :: state and r s1
  assume l: "later (heap s) (heap s')" and h: "holds (heap s) (Some (cur, k, v))"
    and run: "arrayM v s = (Inr r, s1)"
  from h have "get_prop (heap s) cur k = Inr v" by (simp add: holds_def)
  with later_closed [OF l] have "val_ok (heap s) v" by (rule closed_get_prop)
  with later_ext [OF l] have "isArray (heap s') v = isArray (heap s) v \<and> elems (heap s') v = elems (heap s) v"
    by (rule ext_array_ok)
  with run l show "\<exists>s1'. arrayM v s' = (Inr r, s1') \<and> later (heap s1) (heap s1')" by auto
qed

lemma is_mapping_nth:
  "b < length h \<Longrightarrow> own_get (h ! b) ''properties'' = Ref a \<Longrightarrow> is_mapping h a"
  by (auto simp: is_mapping_def list_ex_iff)

lemma later_mapping:
  assumes "later h h'" and "get_prop h cur ''properties'' = Inr (Ref a)"
  shows "a < length h \<and> a < length h' \<and> h' ! a = h ! a"
proof -
  from assms(2) obtain b where b: "cur = Ref b" "b < length h" "own_get (h ! b) ''properties'' = Ref a"
    by (cases cur) (auto simp: get_prop_def split: if_splits)
  from closed_get_prop [OF later_closed [OF assms(1)] assms(2)] have a: "a < length h" by simp
  from b have "is_mapping h a" by (simp add: is_mapping_nth)
  with assms(1) a have "h' ! a = h ! a" by (auto simp: later_def mappings_kept_def list_all_iff)
  with a ext_length [OF later_ext [OF assms(1)] a] show ?thesis by simp
qed

lemma later_mapping_read:
  assumes "later h h'" and "get_prop h cur ''properties'' = Inr ps"
    and "get_prop h ps key = Inr x"
  shows "get_prop h' ps key = Inr x"
proof (cases ps)
  case (Ref a)
  with later_mapping [OF assms(1), of cur a] assms(2,3) show ?thesis
    by (simp add: get_prop_def)
qed (use assms(3) in \<open>simp_all add: get_prop_def\<close>)

lemma later_mapping_entries:
  assumes "later h h'" and "get_prop h cur ''properties'' = Inr ps"
  shows "assign_entries h' ps = assign_entries h ps"
proof (cases ps)
  case (Ref a)
  with later_mapping [OF assms(1), of cur a] assms(2) show ?thesis
    by (simp add: assign_entries_def)
qed (simp_all add: assign_entries_def)

lemma simF_keys:
  "simF (Some (current, ''properties'', ps)) (rd (\<lambda>h. Inr (map fst (assign_entries h ps))))"
proof (rule simF_I)
  show "frames (rd (\<lambda>h. Inr (map fst (assign_entries h ps))))" by (rule frames_rd)
next
  fix s s' :: state and r s1
  assume l: "later (heap s) (heap s')" and h: "holds (heap s) (Some (current, ''properties'', ps))"
    and run: "rd (\<lambda>h. Inr (map fst (assign_entries h ps))) s = (Inr r, s1)"
  from h have "get_prop (heap s) current ''properties'' = Inr ps" by (simp add: holds_def)
  with l have "assign_entries (heap s') ps = assign_entries (heap s) ps" by (rule later_mapping_entries)
  with run l show "\<exists>s1'. rd (\<lambda>h. Inr (map fst (assign_entries h ps))) s' = (Inr r, s1') \<and>
      later (heap s1) (heap s1')" by auto
qed

lemma simF_read_mapping:
  assumes "\<And>x. simF None (g x)"
  shows "simF (Some (current, ''properties'', ps)) (bnd (getM ps key) g)"
proof (rule simF_I)
  from assms show "frames (bnd (getM ps key) g)" by (intro frames_intros simF_frames)
next
  fix s s' :: state and r s2
  assume l: "later (heap s) (heap s')" and h: "holds (heap s) (Some (current, ''properties'', ps))"
    and run: "bnd (getM ps key) g s = (Inr r, s2)" and len: "length (heap s2) = length (heap s)"
  from h have p: "get_prop (heap s) current ''properties'' = Inr ps" by (simp add: holds_def)
  from run obtain x where f: "get_prop (heap s) ps key = Inr x" and g: "g x s = (Inr r, s2)"
    by (auto simp: bnd_Inr_iff)
  have h0: "holds (heap s) None" by (simp add: holds_def)
  from simF_D [OF assms l h0 g len] obtain s2' where
    "g x s' = (Inr r, s2')" "later (heap s2) (heap s2')" by blast
  moreover from l p f have "get_prop (heap s') ps key = Inr x" by (rule later_mapping_read)
  ultimately show "\<exists>s2'. bnd (getM ps key) g s' = (Inr r, s2') \<and> later (heap s2) (heap s2')"
    by (auto simp: bnd_def)
qed

lemma simF_indexOf: "simF F (rd (\<lambda>h. indexOf h req key))"
proof (rule simF_I)
  show "frames (rd (\<lambda>h. indexOf h req key))" by (rule frames_rd)
next
  fix s s' :: state and r s1
  assume l: "later (heap s) (heap s')" and run: "rd (\<lambda>h. indexOf h req key) s = (Inr r, s1)"
  then have i: "indexOf (heap s) req key = Inr r" and s1: "s1 = s" by auto
  have "indexOf (heap s') req key = Inr r"
  proof (cases req)
    case (Ref a)
    with i obtain xs where a: "a < length (heap s)" "heap s ! a = Arr xs"
      by (auto simp: indexOf_def split: if_splits obj.splits)
    with later_ext [OF l] have "heap s' ! a = Arr xs" "a < length (heap s')"
      by (auto simp: ext_def)
    with i Ref a show ?thesis by (simp add: indexOf_def)
  qed (use i in \<open>simp_all add: indexOf_def\<close>)
  with l s1 show "\<exists>s1'. rd (\<lambda>h. indexOf h req key) s' = (Inr r, s1') \<and> later (heap s1) (heap s1')"
    by auto
qed

lemma serializable_Ref:
  "serializable h (Suc n) (Ref a) =
     (a < length h \<and> list_all (serializable h n) (map snd (own_entries (h ! a))))"
  by simp

lemma serializable_prim: "\<not> isObject v \<Longrightarrow> serializable h n v"
  by (cases n; cases v) simp_all

lemma serializable_Suc: "serializable h n v \<Longrightarrow> serializable h (Suc n) v"
proof (induction n arbitrary: v)
  case 0
  then show ?case by (cases v) simp_all
next
  case (Suc n)
  show ?case
  proof (cases v)
    case (Ref a)
    from Suc.prems have a: "a < length h"
      and all: "list_all (serializable h n) (map snd (own_entries (h ! a)))"
      unfolding Ref serializable_Ref by simp_all
    from all have "list_all (serializable h (Suc n)) (map snd (own_entries (h ! a)))"
      unfolding list_all_iff using Suc.IH by blast
    with a show ?thesis unfolding Ref serializable_Ref by simp
  qed (simp_all add: serializable_prim)
qed

lemma serializable_add: "serializable h n v \<Longrightarrow> serializable h (n + d) v"
proof (induction d)
  case 0
  then show ?case by (simp del: serializable.simps)
next
  case (Suc d)
  then have "serializable h (Suc (n + d)) v" by (intro serializable_Suc)
  then show ?case by (simp del: serializable.simps)
qed

lemma serializable_le: "n \<le> m \<Longrightarrow> serializable h n v \<Longrightarrow> serializable h m v"
  using serializable_add [of h n v "m - n"] by (simp del: serializable.simps)

lemma update_values: "set (map snd (AList.update k v ps)) \<subseteq> insert v (set (map snd ps))"
  by (induction ps) auto

lemma ext_values:
  assumes "ext h h'" and "a < length h"
  shows "set (map snd (own_entries (h' ! a))) \<subseteq> insert (Num 0) (set (map snd (own_entries (h ! a))))"
proof -
  from assms have "h' ! a = h ! a \<or> h' ! a = set_own (h ! a) ''minLength'' (Num 0)"
    by (auto simp: ext_def)
  then show ?thesis
  proof
    assume "h' ! a = h ! a"
    then show ?thesis by auto
  next
    assume w: "h' ! a = set_own (h ! a) ''minLength'' (Num 0)"
    show ?thesis
    proof (cases "h ! a")
      case (Obj ps)
      with w have "own_entries (h' ! a) = AList.update ''minLength'' (Num 0) ps" by simp
      with update_values [of "''minLength''" "Num 0" ps] Obj show ?thesis by simp
    next
      case (Arr xs)
      with w show ?thesis by auto
    qed
  qed
qed

lemma serializable_ext:
  assumes "ext h h'"
  shows "serializable h n v \<Longrightarrow> serializable h' n v"
proof (induction n arbitrary: v)
  case 0
  then show ?case by simp
next
  case (Suc n)
  show ?case
  proof (cases v)
    case (Ref a)
    from Suc.prems have a: "a < length h"
      and all: "list_all (serializable h n) (map snd (own_entries (h ! a)))"
      unfolding Ref serializable_Ref by simp_all
    from assms a have a': "a < length h'" by (rule ext_length)
    note ext_values [OF assms a]
    moreover have "serializable h' n (Num 0)" by (simp add: serializable_prim)
    moreover from all have "\<forall>w \<in> set (map snd (own_entries (h ! a))). serializable h' n w"
      unfolding list_all_iff using Suc.IH by blast
    ultimately have "list_all (serializable h' n) (map snd (own_entries (h' ! a)))"
      unfolding list_all_iff by blast
    with a' show ?thesis unfolding Ref serializable_Ref by simp
  qed (simp_all add: serializable_prim)
qed

lemma simF_warn: "simF F (warn cur)"
proof (rule simF_I)
  show "frames (warn cur)" by (rule frames_warn)
next
  fix s s' :: state and r s1
  assume l: "later (heap s) (heap s')" and run: "warn cur s = (Inr r, s1)"
  then have ser: "serializable (heap s) (length (heap s)) cur" and s1: "heap s1 = heap s"
    by (auto simp: warn_def split: if_splits)
  from later_ext [OF l] have "length (heap s) \<le> length (heap s')" by (simp add: ext_def)
  then have "serializable (heap s) (length (heap s')) cur" using ser by (rule serializable_le)
  with later_ext [OF l] have "serializable (heap s') (length (heap s')) cur" by (rule serializable_ext)
  with l s1 show "\<exists>s1'. warn cur s' = (Inr r, s1') \<and> later (heap s1) (heap s1')"
    by (auto simp: warn_def)
qed

lemma get_prop_ext_defined:
  assumes "ext h h'" and "get_prop h v k = Inr x" and "x \<noteq> Undefined"
  shows "get_prop h' v k = Inr x"
proof (cases "k = ''minLength''")
  case True
  show ?thesis
  proof (cases v)
    case (Ref a)
    with assms(2) have a: "a < length h" "own_get (h ! a) k = x"
      by (auto simp: get_prop_def split: if_splits)
    with assms(1,3) True have "h' ! a = h ! a" "a < length h'" by (auto simp: ext_def)
    with a Ref show ?thesis by (simp add: get_prop_def)
  qed (use assms(2) in \<open>simp_all add: get_prop_def\<close>)
next
  case False
  with assms(1) show ?thesis using assms(2) by (rule get_prop_ext_other)
qed

lemma walk_ext_defined:
  assumes "ext h h'"
  shows "walk h v ps = Inr x \<Longrightarrow> x \<noteq> Undefined \<Longrightarrow> walk h' v ps = Inr x"
proof (induction ps arbitrary: v)
  case Nil
  then show ?case by simp
next
  case (Cons p ps)
  show ?case
  proof (cases "truthy v")
    case False
    with Cons.prems show ?thesis by simp
  next
    case tv: True
    show ?thesis
    proof (cases "isObject v")
      case True
      with tv Cons.prems obtain y where y: "get_prop h v p = Inr y" and w: "walk h y ps = Inr x"
        by (auto split: sum.splits)
      have "y \<noteq> Undefined"
      proof
        assume "y = Undefined"
        with w have "x = Undefined" using walk_falsy [of Undefined h ps] by simp
        with Cons.prems(2) show False by simp
      qed
      with assms y have "get_prop h' v p = Inr y" by (rule get_prop_ext_defined)
      moreover from w Cons.prems(2) have "walk h' y ps = Inr x" by (rule Cons.IH)
      ultimately show ?thesis using tv True by simp
    next
      case False
      with tv Cons.prems have "walk h (Bool False) ps = Inr x" by simp
      then have "x = Bool False" using walk_falsy [of "Bool False" h ps] by simp
      with tv False show ?thesis using walk_falsy [of "Bool False" h' ps] by simp
    qed
  qed
qed

lemma resolveref_ext_defined:
  assumes "ext h h'" and "resolveref cfg schema h value = Inr node" and "node \<noteq> Undefined"
  shows "resolveref cfg schema h' value = Inr node"
proof (cases "value")
  case (Str v)
  let ?ident = "take (nat (indexOf_char v (CHR ''#'') + 1)) v"
  let ?paths = "tl (split_on (CHR ''/'') (drop (nat (indexOf_char v (CHR ''#'') + 1)) v))"
  from assms(2) Str obtain found where f: "registry_lookup cfg h ?ident = Inr found"
    by (auto simp: resolveref_def bndE_def Let_def split: sum.splits)
  with assms(1) obtain found' where f': "registry_lookup cfg h' ?ident = Inr found'"
    and ff: "if truthy found then found' = found else \<not> truthy found'"
    using registry_lookup_ext by blast
  let ?refschema = "if truthy found then found else schema"
  from ff have same: "(if truthy found' then found' else schema) = ?refschema"
    by (auto split: if_splits)
  from assms(2) Str f have t: "truthy ?refschema" and w: "walk h ?refschema ?paths = Inr node"
    by (auto simp: resolveref_def bndE_def Let_def split: if_splits)
  from assms(1) w assms(3) have "walk h' ?refschema ?paths = Inr node" by (rule walk_ext_defined)
  with Str f' same t show ?thesis
    by (simp add: resolveref_def bndE_def Let_def)
qed (use assms in \<open>simp_all add: resolveref_def\<close>)

lemma simF_ref:
  assumes "\<And>v. simF F (res v)" and "\<And>s r s1. res Undefined s \<noteq> (Inr r, s1)"
  shows "simF F (bnd (rd (\<lambda>h. resolveref cfg schema h value)) res)"
proof (rule simF_I)
  from assms(1) show "frames (bnd (rd (\<lambda>h. resolveref cfg schema h value)) res)"
    by (intro frames_bnd frames_rd simF_frames)
next
  fix s s' :: state and r s2
  assume l: "later (heap s) (heap s')" and h: "holds (heap s) F"
    and run: "bnd (rd (\<lambda>h. resolveref cfg schema h value)) res s = (Inr r, s2)"
    and len: "length (heap s2) = length (heap s)"
  from run obtain node where n: "resolveref cfg schema (heap s) value = Inr node"
    and g: "res node s = (Inr r, s2)"
    by (auto simp: bnd_Inr_iff)
  from g assms(2) have "node \<noteq> Undefined" by blast
  with later_ext [OF l] n have "resolveref cfg schema (heap s') value = Inr node"
    by (rule resolveref_ext_defined)
  moreover from simF_D [OF assms(1) l h g len] obtain s2' where
    "res node s' = (Inr r, s2')" "later (heap s2) (heap s2')" by blast
  ultimately show "\<exists>s2'. bnd (rd (\<lambda>h. resolveref cfg schema h value)) res s' = (Inr r, s2') \<and>
      later (heap s2) (heap s2')"
    by (auto simp: bnd_def)
qed

lemma simF_grows:
  assumes "frames f" and "\<And>s r s1. f s = (Inr r, s1) \<Longrightarrow> length (heap s) < length (heap s1)"
  shows "simF F f"
proof (rule simF_I)
  show "frames f" by (rule assms(1))
next
  fix s s' :: state and r s1
  assume "f s = (Inr r, s1)" "length (heap s1) = length (heap s)"
  with assms(2) [of s r s1] show "\<exists>s1'. f s' = (Inr r, s1') \<and> later (heap s1) (heap s1')" by simp
qed

lemma mergeObject_grows:
  "mergeObject cfg schema cur s = (Inr r, s1) \<Longrightarrow> length (heap s) < length (heap s1)"
  by (auto simp: mergeObject_def bnd_Inr_iff alloc_def split: if_splits prod.splits)

lemma mergeArray_grows:
  "mergeArray cfg schema cur s = (Inr r, s1) \<Longrightarrow> length (heap s) < length (heap s1)"
  by (auto simp: mergeArray_def bnd_Inr_iff alloc_def split: if_splits prod.splits)

lemma mapM_checkAllOfItem_state:
  "mapM (checkAllOfItem cfg schema type) vs s = (Inr r, s1) \<Longrightarrow> s1 = s"
proof (induction vs arbitrary: r)
  case Nil
  then show ?case by simp
next
  case (Cons v vs)
  then show ?case
    by (auto simp: bnd_Inr_iff checkAllOfItem_def split: if_splits)
qed

lemma resolveAllOf_grows:
  assumes "\<And>v. frames (res v)" and "resolveAllOf cfg schema res cur s = (Inr r, s1)"
  shows "length (heap s) < length (heap s1)"
proof -
  from assms(2) obtain a type us sm where
    m: "mapM (checkAllOfItem cfg schema type) (elems (heap s) a) s = (Inr us, sm)"
    and g: "(if type = Str ''object'' then bnd (mergeObject cfg schema a) res
             else bnd (mergeArray cfg schema a) res) sm = (Inr r, s1)"
    by (auto simp: resolveAllOf_def bnd_Inr_iff split: if_splits)
  from m have sm: "sm = s" by (rule mapM_checkAllOfItem_state)
  from g obtain merged sg where
    "mergeObject cfg schema a sm = (Inr merged, sg) \<or> mergeArray cfg schema a sm = (Inr merged, sg)"
    and r: "res merged sg = (Inr r, s1)"
    by (auto simp: bnd_Inr_iff split: if_splits)
  then have "length (heap s) < length (heap sg)"
    unfolding sm using mergeObject_grows mergeArray_grows by blast
  moreover from assms(1) r have "length (heap sg) \<le> length (heap s1)" by (rule frames_length)
  ultimately show ?thesis by simp
qed

lemma parse_index_minLength: "parse_index ''minLength'' = None"
  by code_simp

lemma own_get_Arr_minLength: "own_get (Arr xs) ''minLength'' = Undefined"
  by (simp add: parse_index_minLength)

lemma defaultMinLength_Inr:
  assumes "defaultMinLength c s = (Inr u, s1)"
  obtains a ps where "c = Ref a" and "a < length (heap s)" and "heap s ! a = Obj ps"
    and "if lookup ps ''minLength'' = Undefined
         then s1 = s\<lparr>heap := (heap s)[a := Obj (AList.update ''minLength'' (Num 0) ps)]\<rparr>
         else s1 = s"
proof -
  from assms obtain m0 where m0: "get_prop (heap s) c ''minLength'' = Inr m0"
    and rest: "(if isUndefined m0 then setM c ''minLength'' (Num 0) else ret ()) s = (Inr u, s1)"
    by (auto simp: defaultMinLength_def bnd_Inr_iff)
  show ?thesis
  proof (cases c)
    case (Ref a)
    with m0 have a: "a < length (heap s)" and g: "own_get (heap s ! a) ''minLength'' = m0"
      by (auto simp: get_prop_def split: if_splits)
    show ?thesis
    proof (cases "heap s ! a")
      case (Obj ps)
      with rest Ref a g have "if lookup ps ''minLength'' = Undefined
         then s1 = s\<lparr>heap := (heap s)[a := Obj (AList.update ''minLength'' (Num 0) ps)]\<rparr>
         else s1 = s"
        by (auto simp: isUndefined_def setM_def split: if_splits)
      with Ref a Obj show ?thesis by (rule that)
    next
      case (Arr xs)
      with g have "m0 = Undefined" by (simp only: own_get_Arr_minLength)
      with rest Ref a Arr show ?thesis by (simp add: isUndefined_def setM_def)
    qed
  qed (use m0 rest in \<open>auto simp: get_prop_def isUndefined_def setM_def\<close>)
qed

lemma is_mapping_nth_iff:
  "is_mapping g b \<longleftrightarrow> (\<exists>i < length g. own_get (g ! i) ''properties'' = Ref b)"
  by (simp add: is_mapping_def list_ex_iff Bex_def in_set_conv_nth) blast

lemma own_get_properties_update:
  "own_get (Obj (AList.update ''minLength'' v ps)) ''properties'' = own_get (Obj ps) ''properties''"
  by (simp add: lookup_def update_conv')

lemma is_mapping_write:
  assumes "a < length h" and "h ! a = Obj ps"
  shows "is_mapping (h[a := Obj (AList.update ''minLength'' v ps)]) b = is_mapping h b"
proof -
  have "own_get (h[a := Obj (AList.update ''minLength'' v ps)] ! i) ''properties'' =
        own_get (h ! i) ''properties''" if "i < length h" for i
  proof (cases "i = a")
    case True
    with assms show ?thesis by (simp only: nth_list_update_eq own_get_properties_update)
  next
    case False
    then show ?thesis by simp
  qed
  then show ?thesis
    unfolding is_mapping_nth_iff length_list_update by (auto simp del: own_get.simps)
qed

lemma later_write:
  assumes l: "later h h'" and a: "a < length h" and ob: "h ! a = Obj ps"
  shows "later (h[a := Obj (AList.update ''minLength'' (Num 0) ps)])
               (h'[a := Obj (AList.update ''minLength'' (Num 0) ps)])"
    (is "later ?h1 ?h1'")
proof -
  from l have e: "ext h h'" and c: "closed h" and k: "mappings_kept h h'"
    by (simp_all add: later_def)
  from e a have a': "a < length h'" by (rule ext_length)
  have "ext ?h1 ?h1'"
    unfolding ext_def
  proof (intro conjI allI impI)
    from e show "length ?h1 \<le> length ?h1'" by (simp add: ext_def)
  next
    fix b assume "b < length ?h1"
    then have b: "b < length h" by simp
    with e have "h' ! b = h ! b \<or>
      (own_get (h ! b) ''minLength'' = Undefined \<and> h' ! b = set_own (h ! b) ''minLength'' (Num 0))"
      by (simp add: ext_def)
    with a a' b show "?h1' ! b = ?h1 ! b \<or>
      (own_get (?h1 ! b) ''minLength'' = Undefined \<and> ?h1' ! b = set_own (?h1 ! b) ''minLength'' (Num 0))"
      by (cases "b = a") simp_all
  qed
  moreover have "closed ?h1"
    unfolding closed_def list_all_iff
  proof (intro ballI)
    fix ob' w assume o: "ob' \<in> set ?h1" and w: "w \<in> set (map snd (own_entries ob'))"
    from o obtain b where b: "b < length h" "ob' = ?h1 ! b" by (auto simp: in_set_conv_nth)
    have "val_ok h w"
    proof (cases "b = a")
      case True
      with b a have "ob' = Obj (AList.update ''minLength'' (Num 0) ps)" by simp
      with w update_values [of "''minLength''" "Num 0" ps]
      have "w = Num 0 \<or> w \<in> set (map snd ps)" by auto
      then show ?thesis
      proof
        assume "w \<in> set (map snd ps)"
        with ob have "w \<in> snd ` set (own_entries (h ! a))" by simp
        with c a show ?thesis by (rule closed_nth)
      qed simp
    next
      case False
      with b have "ob' = h ! b" by simp
      with w have "w \<in> snd ` set (own_entries (h ! b))" by simp
      with c b(1) show ?thesis by (rule closed_nth)
    qed
    then show "val_ok ?h1 w" by (simp add: val_ok_def split: val.splits)
  qed
  moreover have "mappings_kept ?h1 ?h1'"
    unfolding mappings_kept_def list_all_iff
  proof (intro ballI impI)
    fix b assume "b \<in> set [0..<length ?h1]" and m: "is_mapping ?h1 b"
    then have b: "b < length h" by simp
    from m have "is_mapping h b" by (simp add: is_mapping_write [OF a ob])
    with k b have "h' ! b = h ! b" by (simp add: mappings_kept_def list_all_iff)
    with a a' b show "?h1' ! b = ?h1 ! b" by (cases "b = a") simp_all
  qed
  ultimately show ?thesis by (simp add: later_def)
qed

lemma simF_default_read:
  assumes "\<And>ml. simF F (g ml)"
  shows "simF F (bnd (defaultMinLength c) (\<lambda>_. bnd (getM c ''minLength'') g))"
proof (rule simF_I)
  from assms show "frames (bnd (defaultMinLength c) (\<lambda>_. bnd (getM c ''minLength'') g))"
    by (intro frames_bnd frames_defaultMinLength frames_getM simF_frames)
next
  fix s s' :: state and r s2
  assume l: "later (heap s) (heap s')" and h: "holds (heap s) F"
    and run: "bnd (defaultMinLength c) (\<lambda>_. bnd (getM c ''minLength'') g) s = (Inr r, s2)"
    and len: "length (heap s2) = length (heap s)"
  from run obtain u s1 ml where d: "defaultMinLength c s = (Inr u, s1)"
    and ml: "get_prop (heap s1) c ''minLength'' = Inr ml" and g: "g ml s1 = (Inr r, s2)"
    by (auto simp: bnd_Inr_iff)
  from d obtain a ps where c: "c = Ref a" and a: "a < length (heap s)" and ob: "heap s ! a = Obj ps"
    and w: "if lookup ps ''minLength'' = Undefined
         then s1 = s\<lparr>heap := (heap s)[a := Obj (AList.update ''minLength'' (Num 0) ps)]\<rparr>
         else s1 = s"
    by (rule defaultMinLength_Inr)
  from later_ext [OF l] a have a': "a < length (heap s')" by (rule ext_length)
  from frames_defaultMinLength d have e1: "ext (heap s) (heap s1)" by (rule frames_ext)
  with h have h1: "holds (heap s1) F" by (rule holds_ext)
  from w have len1: "length (heap s1) = length (heap s)" by (auto split: if_splits)
  with len have len2: "length (heap s2) = length (heap s1)" by simp
  have "\<exists>s1'. defaultMinLength c s' = (Inr (), s1') \<and> get_prop (heap s1') c ''minLength'' = Inr ml \<and>
      later (heap s1) (heap s1')"
  proof (cases "lookup ps ''minLength'' = Undefined")
    case False
    with w have s1: "s1 = s" by simp
    from later_ext [OF l] a ob False have ob': "heap s' ! a = Obj ps" by (auto simp: ext_def)
    with False c a' have "defaultMinLength c s' = (Inr (), s')"
      by (simp add: defaultMinLength_def bnd_def get_prop_def isUndefined_def)
    moreover from ml s1 c a a' ob ob' have "get_prop (heap s') c ''minLength'' = Inr ml"
      by (simp add: get_prop_def)
    ultimately show ?thesis using l s1 by blast
  next
    case True
    let ?ob = "Obj (AList.update ''minLength'' (Num 0) ps)"
    from True w have s1: "s1 = s\<lparr>heap := (heap s)[a := ?ob]\<rparr>" by simp
    with ml c a have mlv: "ml = Num 0" by (simp add: get_prop_def lookup_def update_conv')
    from l a ob have l1: "later ((heap s)[a := ?ob]) ((heap s')[a := ?ob])" by (rule later_write)
    from later_ext [OF l] a ob True have "heap s' ! a = Obj ps \<or> heap s' ! a = ?ob"
      by (auto simp: ext_def)
    then show ?thesis
    proof
      assume ob': "heap s' ! a = Obj ps"
      with True c a' have "defaultMinLength c s' = (Inr (), s'\<lparr>heap := (heap s')[a := ?ob]\<rparr>)"
        by (simp add: defaultMinLength_def bnd_def get_prop_def isUndefined_def setM_def)
      moreover from c a' mlv have "get_prop (heap (s'\<lparr>heap := (heap s')[a := ?ob]\<rparr>)) c ''minLength'' = Inr ml"
        by (simp add: get_prop_def lookup_def update_conv')
      moreover from l1 s1 have "later (heap s1) (heap (s'\<lparr>heap := (heap s')[a := ?ob]\<rparr>))" by simp
      ultimately show ?thesis by blast
    next
      assume ob': "heap s' ! a = ?ob"
      with c a' have "defaultMinLength c s' = (Inr (), s')"
        by (simp add: defaultMinLength_def bnd_def get_prop_def isUndefined_def lookup_def update_conv')
      moreover from c a' mlv ob' have "get_prop (heap s') c ''minLength'' = Inr ml"
        by (simp add: get_prop_def lookup_def update_conv')
      moreover from ob' have "(heap s')[a := ?ob] = heap s'" by (metis list_update_id)
      with l1 s1 have "later (heap s1) (heap s')" by simp
      ultimately show ?thesis by blast
    qed
  qed
  then obtain s1' where d': "defaultMinLength c s' = (Inr (), s1')"
    and ml': "get_prop (heap s1') c ''minLength'' = Inr ml" and l1: "later (heap s1) (heap s1')"
    by blast
  from simF_D [OF assms l1 h1 g len2] obtain s2' where
    "g ml s1' = (Inr r, s2')" "later (heap s2) (heap s2')" by blast
  with d' ml' show "\<exists>s2'. bnd (defaultMinLength c) (\<lambda>_. bnd (getM c ''minLength'') g) s' = (Inr r, s2') \<and>
      later (heap s2) (heap s2')"
    by (auto simp: bnd_def)
qed

lemmas sim_rules =
  simF_default_read simF_read simF_ref simF_bnd simF_ret simF_throw simF_assert simF_alloc simF_if
  simF_case_prod simF_case_option simF_mapM simF_whenTruthy simF_whenNumber simF_arrayM simF_keys
  simF_indexOf simF_warn

lemma simF_number: "simF F (number current)"
  unfolding number_def by (intro sim_rules) simp_all

lemma simF_date: "simF F (date current)"
  unfolding date_def by (intro sim_rules)

lemma simF_binary: "simF F (binary current)"
  unfolding binary_def by (intro sim_rules)

lemma simF_regularString: "simF F (regularString current j)"
  unfolding regularString_def by (intro sim_rules) simp_all

lemma simF_string: "simF F (string current)"
  unfolding string_def by (intro sim_rules simF_date simF_binary simF_regularString) simp_all

lemma simF_resolveAsArray:
  assumes "\<And>v F. simF F (res v)"
  shows "simF (Some (cur, k, value)) (resolveAsArray res value)"
  unfolding resolveAsArray_def by (intro sim_rules assms)

lemma simF_array:
  assumes "\<And>v F. simF F (res v)"
  shows "simF F (array res current)"
  unfolding array_def by (intro sim_rules simF_resolveAsArray assms) simp_all

lemma simF_resolveproperty:
  assumes "\<And>v F. simF F (res v)"
  shows "simF F (resolveproperty res current key)"
  unfolding resolveproperty_def
  apply (rule simF_read, simp)
  apply (rule simF_read_mapping)
  apply (intro sim_rules assms)
  apply simp_all
  done

lemma simF_resolveproperties:
  assumes "\<And>v F. simF F (res v)"
  shows "simF F (resolveproperties res current)"
  unfolding resolveproperties_def
  by (intro sim_rules simF_resolveproperty assms) simp_all

lemma simF_object:
  assumes "\<And>v F. simF F (res v)"
  shows "simF F (object res current)"
  unfolding object_def
  by (intro sim_rules simF_resolveproperties assms) simp_all

lemma simF_joitype:
  assumes "\<And>v F. simF F (res v)"
  shows "simF F (joitype cfg res current t f)"
  unfolding joitype_def Let_def
  by (intro sim_rules simF_array simF_object simF_number simF_string assms)

lemma simF_resolvetype:
  assumes "\<And>v F. simF F (res v)"
  shows "simF F (resolvetype cfg res current)"
  unfolding resolvetype_def
  by (intro sim_rules simF_joitype assms) simp_all

lemma simF_combinators:
  assumes "\<And>v F. simF F (res v)"
  shows "simF F (resolveAnyOf res current)"
    and "simF F (resolveOneOf res current)"
    and "simF F (resolveNot res current)"
  unfolding resolveAnyOf_def resolveOneOf_def resolveNot_def
  by (intro sim_rules assms; simp)+

lemma simF_resolveAllOf:
  assumes "\<And>v F. simF F (res v)"
  shows "simF F (resolveAllOf cfg schema res current)"
proof (rule simF_grows)
  from assms have fr: "frames (res v)" for v by (rule simF_frames)
  then show "frames (resolveAllOf cfg schema res current)" by (rule frames_resolveAllOf)
  fix s r s1 assume "resolveAllOf cfg schema res current s = (Inr r, s1)"
  with fr show "length (heap s) < length (heap s1)" by (rule resolveAllOf_grows)
qed

lemma simF_resolve_body:
  assumes "\<And>v F. simF F (res v)" and "\<And>s r s1. res Undefined s \<noteq> (Inr r, s1)"
  shows "simF F (resolve_body cfg schema res current)"
  unfolding resolve_body_def
  by (intro sim_rules simF_resolvetype simF_combinators simF_resolveAllOf assms) simp_all

lemma resolve_Undefined: "resolve cfg schema n Undefined s \<noteq> (Inr r, s1)"
  by (cases n) (simp_all add: resolve_body_def bnd_def get_prop_def)

lemma simF_resolve: "simF F (resolve cfg schema n current)"
proof (induction n arbitrary: F current)
  case 0
  show ?case unfolding resolve.simps by (rule simF_throw)
next
  case (Suc n)
  show ?case
    unfolding resolve.simps by (rule simF_resolve_body) (rule Suc, rule resolve_Undefined)
qed




section \<open>Required properties\<close>

lemma mapM_Inr_induct:
  assumes "mapM f xs s = (Inr ys, s')" and "I s"
    and "\<And>x s1 y s2. x \<in> set xs \<Longrightarrow> I s1 \<Longrightarrow> f x s1 = (Inr y, s2) \<Longrightarrow> I s2 \<and> P x y"
  shows "list_all2 P xs ys \<and> I s'"
  using assms
proof (induction xs arbitrary: s ys)
  case Nil
  then show ?case by simp
next
  case (Cons x xs)
  from Cons.prems(1) obtain y s1 ys' where
    x: "f x s = (Inr y, s1)" and xs: "mapM f xs s1 = (Inr ys', s')" and ys: "ys = y # ys'"
    by (auto simp: bnd_Inr_iff)
  from Cons.prems(3) [OF _ Cons.prems(2) x] have s1: "I s1" and p: "P x y" by simp_all
  have "list_all2 P xs ys' \<and> I s'"
    by (rule Cons.IH [OF xs s1], rule Cons.prems(3)) simp_all
  with p ys show ?case by simp
qed

lemma ext_array:
  assumes "ext h h'" and "isArray h v"
  shows "isArray h' v \<and> elems h' v = elems h v"
proof -
  from assms(2) obtain a xs where v: "v = Ref a" and a: "a < length h" and ar: "h ! a = Arr xs"
    by (auto simp: isArray_def split: val.splits obj.splits)
  from assms(1) a ar have "h' ! a = Arr xs" and "a < length h'"
    by (auto simp: ext_def)
  with v a ar show ?thesis by (simp add: isArray_def elems_def)
qed

lemma indexOf_list_mem: "indexOf_list xs v \<noteq> -1 \<longleftrightarrow> v \<in> set xs"
proof (induction xs)
  case Nil
  show ?case by simp
next
  case (Cons x xs)
  have "-1 \<le> indexOf_list ys v" for ys
    by (induction ys) (auto simp: Let_def)
  from this [of xs] Cons show ?case by (auto simp: Let_def)
qed

lemma indexOf_array:
  assumes "isArray h req"
  shows "indexOf h req key = Inr (indexOf_list (elems h req) (Str key))"
  using assms by (auto simp: isArray_def indexOf_def elems_def split: val.splits obj.splits)

lemma resolveproperty_child:
  assumes fr: "\<And>v. frames (res v)"
    and e1: "ext h0 (heap s1)"
    and req: "get_prop h0 current ''required'' = Inr req" "isArray h0 req"
    and run: "resolveproperty res current key s1 = (Inr kc, s2)"
  shows "ext h0 (heap s2) \<and>
    (\<exists>r sa. ext h0 (heap sa) \<and>
       res (read_prop (heap sa) (read_prop (heap sa) current ''properties'') key) sa = (Inr r, s2) \<and>
       kc = (key, if Str key \<in> set (elems h0 req) then Required r else r))"
proof -
  from run obtain ps property r sb rq where
    ps: "get_prop (heap s1) current ''properties'' = Inr ps"
    and property: "get_prop (heap s1) ps key = Inr property"
    and r: "res property s1 = (Inr r, sb)"
    and rq: "get_prop (heap sb) current ''required'' = Inr rq"
    and rest: "(if truthy rq
                then bnd (rd (\<lambda>h. indexOf h rq key))
                       (\<lambda>i. ret (key, if i \<noteq> -1 then Required r else r))
                else ret (key, r)) sb = (Inr kc, s2)"
    by (auto simp: resolveproperty_def bnd_Inr_iff)
  from fr r have "ext (heap s1) (heap sb)" unfolding frames_def by blast
  with e1 have eb: "ext h0 (heap sb)" by (rule ext_trans)
  have "get_prop (heap sb) current ''required'' = Inr req"
    by (rule get_prop_ext_other [OF eb _ req(1)]) simp
  with rq have rq_eq: "rq = req" by simp
  from eb req(2) have arr: "isArray (heap sb) req" "elems (heap sb) req = elems h0 req"
    using ext_array by blast+
  from req(2) have "truthy req" by (auto simp: isArray_def split: val.splits)
  with rest rq_eq arr have "s2 = sb"
    and kc: "kc = (key, if Str key \<in> set (elems h0 req) then Required r else r)"
    by (auto simp: bnd_Inr_iff indexOf_array indexOf_list_mem)
  from ps property have "read_prop (heap s1) (read_prop (heap s1) current ''properties'') key = property"
    by (simp add: read_prop_def)
  with r \<open>s2 = sb\<close> e1 eb kc show ?thesis by blast
qed

lemma list_all2_fst:
  "list_all2 (\<lambda>x y. fst y = x \<and> Q x y) xs ys \<Longrightarrow> map fst ys = xs"
  by (induction rule: list_all2_induct) simp_all

lemma own_keys_assign_entries:
  "isObject v \<Longrightarrow> map fst (assign_entries h v) = own_keys h v"
  by (cases v) (simp_all add: assign_entries_def own_keys_def)




section \<open>Merging \<^verbatim>\<open>allOf\<close>\<close>

lemma restrict_map_add: "(m ++ n) |` A = (m |` A) ++ (n |` A)"
  by (auto simp: fun_eq_iff map_add_def restrict_map_def)

lemma map_of_assign:
  "distinct (map fst es) \<Longrightarrow>
   map_of (assign ps es) = map_of ps ++ (map_of es |` (- {''__proto__''}))"
proof (induction es arbitrary: ps)
  case Nil
  show ?case by (simp add: assign_def)
next
  case (Cons e es)
  obtain k v where e: "e = (k, v)" by (cases e)
  from Cons.prems e have k: "k \<notin> dom (map_of es)" and d: "distinct (map fst es)"
    by (auto simp: dom_map_of_conv_image_fst)
  show ?case
  proof (cases "k = ''__proto__''")
    case True
    have "map_of (assign ps (e # es)) = map_of (assign ps es)"
      by (simp add: assign_def e True)
    also from d have "\<dots> = map_of ps ++ (map_of es |` (- {''__proto__''}))" by (rule Cons.IH)
    also have "map_of es |` (- {''__proto__''}) = map_of (e # es) |` (- {''__proto__''})"
      unfolding e True by (auto simp: fun_eq_iff restrict_map_def)
    finally show ?thesis .
  next
    case False
    have "map_of (assign ps (e # es)) = map_of (assign (AList.update k v ps) es)"
      by (simp add: assign_def e False)
    also from d have "\<dots> = map_of (AList.update k v ps) ++ (map_of es |` (- {''__proto__''}))"
      by (rule Cons.IH)
    also have "\<dots> = (map_of ps)(k \<mapsto> v) ++ (map_of es |` (- {''__proto__''}))"
      by (simp add: update_conv')
    also from k False have "\<dots> = map_of ps ++ (map_of (e # es) |` (- {''__proto__''}))"
      unfolding e
      by (auto simp: map_add_def fun_eq_iff restrict_map_def domIff split: option.splits)
    finally show ?thesis .
  qed
qed

lemma object_schema_reads:
  assumes "object_schema h node"
  shows "get_prop h node k = Inr (read_prop h node k)"
  using assms
  by (auto simp: object_schema_def is_plain_object_def get_prop_def read_prop_def
      split: val.splits)

lemma object_schema_required:
  assumes "object_schema h node"
  shows "(if truthy (read_prop h node ''required'')
          then concat_js h req (read_prop h node ''required'') else req) =
         req @ elems h (read_prop h node ''required'')"
  using assms by (auto simp: object_schema_def concat_js_def elems_def isArray_def split: val.splits)

lemma mergeObject_loop_run:
  assumes "list_all2 (\<lambda>item node. deref cfg schema h item = Inr node \<and> object_schema h node)
             items nodes"
  shows "mergeObject_loop cfg schema h items ps req =
     Inr (foldl (\<lambda>ps node. assign ps (assign_entries h (read_prop h node ''properties''))) ps nodes,
          req @ concat (map (\<lambda>node. elems h (read_prop h node ''required'')) nodes))"
  using assms
proof (induction arbitrary: ps req rule: list_all2_induct)
  case Nil
  show ?case by simp
next
  case (Cons item items node nodes)
  from Cons.hyps(1) have d: "deref cfg schema h item = Inr node" and o: "object_schema h node"
    by simp_all
  show ?case
    by (simp add: d bndE_def object_schema_reads [OF o] object_schema_required [OF o] Cons.IH)
qed

lemma map_of_merged:
  assumes "\<forall>node \<in> set nodes. distinct (map fst (E node))"
  shows "map_of (foldl (\<lambda>ps node. assign ps (E node)) ps nodes) =
         foldl (++) (map_of ps) (map (\<lambda>node. map_of (E node) |` (- {''__proto__''})) nodes)"
  using assms
  by (induction nodes arbitrary: ps) (simp_all add: map_of_assign)

lemma foldl_add_restrict:
  "foldl (++) (m |` A) (map (\<lambda>x. f x |` A) xs) = (foldl (++) m (map f xs)) |` A"
  by (induction xs arbitrary: m) (simp_all add: restrict_map_add [symmetric])

lemma object_schema_properties:
  assumes "object_schema h node"
  shows "distinct (map fst (assign_entries h (read_prop h node ''properties'')))"
    and "map_of (assign_entries h (read_prop h node ''properties'')) =
         own_properties h (read_prop h node ''properties'')"
  using assms
  by (auto simp: object_schema_def is_plain_object_def assign_entries_def own_properties_def
      own_keys_def split: val.splits)

lemma deref_member:
  assumes "if has h item ''$ref''
           then resolveref cfg schema h (read_prop h item ''$ref'') = Inr node else node = item"
    and "object_schema h node"
  shows "deref cfg schema h item = Inr node"
proof (cases "has h item ''$ref''")
  case True
  then obtain r where "get_prop h item ''$ref'' = Inr r" "truthy r"
    by (auto simp: has_def read_prop_def split: sum.splits)
  with True assms(1) show ?thesis by (simp add: deref_def bndE_def read_prop_def)
next
  case False
  with assms have "object_schema h item" by simp
  then have "get_prop h item ''$ref'' = Inr (read_prop h item ''$ref'')" by (rule object_schema_reads)
  with False assms(1) show ?thesis by (simp add: deref_def bndE_def has_def)
qed




text \<open>The merged node of the example: \<^verbatim>\<open>a\<close> is taken from the later member and
  is listed twice.\<close>

lemma merged_example:
  "mergeObject cfg0 (Ref 8) (Ref 7) (state_of heap_allOf) =
     (Inr (Ref 11), state_of (heap_allOf @
        [Obj [(''a'', Str ''boolean''), (''b'', Str ''number'')],
         Arr [Str ''a'', Str ''a'', Str ''b''],
         Obj [(''type'', Str ''object''), (''properties'', Ref 9), (''required'', Ref 10)]]))"
  by code_simp

text \<open>
  The type check of \<^verbatim>\<open>resolveAllOf\<close> on a list that is not empty and whose members
  all have a type that can be read: the merge runs when every member has the type
  of the first and that type is \<^verbatim>\<open>array\<close> or \<^verbatim>\<open>object\<close>, and the assertion fails
  otherwise.
\<close>

lemma checkAllOfItem_run:
  assumes "getSchemaType cfg schema (heap s) item = Inr ty"
  shows "checkAllOfItem cfg schema type item s =
     (if (ty = Str ''array'' \<or> ty = Str ''object'') \<and> type = ty then (Inr (), s)
      else (Inl (AssertionError ''Expected allOf item to be an array or object.''), s))"
  using assms by (simp add: checkAllOfItem_def bnd_def)

lemma mapM_checkAllOfItem:
  assumes "\<forall>item \<in> set vs. \<exists>ty. getSchemaType cfg schema (heap s) item = Inr ty"
  shows "mapM (checkAllOfItem cfg schema type) vs s =
     (if \<forall>item \<in> set vs. (type = Str ''array'' \<or> type = Str ''object'') \<and>
           getSchemaType cfg schema (heap s) item = Inr type
      then (Inr (map (\<lambda>item. ()) vs), s)
      else (Inl (AssertionError ''Expected allOf item to be an array or object.''), s))"
  using assms
proof (induction vs)
  case Nil
  show ?case by simp
next
  case (Cons v vs)
  from Cons.prems obtain ty where ty: "getSchemaType cfg schema (heap s) v = Inr ty" by auto
  from Cons.prems have "\<forall>item \<in> set vs. \<exists>ty. getSchemaType cfg schema (heap s) item = Inr ty" by simp
  note IH = Cons.IH [OF this]
  show ?case
  proof (cases "(ty = Str ''array'' \<or> ty = Str ''object'') \<and> type = ty")
    case True
    then have tt: "type = ty" by simp
    from True have c: "checkAllOfItem cfg schema ty v s = (Inr (), s)"
      by (simp add: checkAllOfItem_run [OF ty])
    from True show ?thesis
      unfolding tt by (simp add: bnd_def c IH [unfolded tt] ty)
  next
    case False
    then have c: "checkAllOfItem cfg schema type v s =
        (Inl (AssertionError ''Expected allOf item to be an array or object.''), s)"
      by (simp add: checkAllOfItem_run [OF ty])
    from False ty show ?thesis
      by (auto simp: bnd_def c)
  qed
qed

lemma resolveAllOf_type_check:
  assumes "get_prop (heap s) current ''allOf'' = Inr a" and "isArray (heap s) a"
    and "elems (heap s) a = v # vs"
    and "\<forall>item \<in> set (v # vs). \<exists>ty. getSchemaType cfg schema (heap s) item = Inr ty"
    and "getSchemaType cfg schema (heap s) v = Inr type"
  shows "resolveAllOf cfg schema res current s =
     (if \<forall>item \<in> set (v # vs). (type = Str ''array'' \<or> type = Str ''object'') \<and>
           getSchemaType cfg schema (heap s) item = Inr type
      then (if type = Str ''object'' then bnd (mergeObject cfg schema a) res s
            else bnd (mergeArray cfg schema a) res s)
      else (Inl (AssertionError ''Expected allOf item to be an array or object.''), s))"
  using assms(1,2,3,5) mapM_checkAllOfItem [OF assms(4), of type]
  by (simp add: resolveAllOf_def bnd_def first_elem_def)

text \<open>
  C2. On the empty list \<^verbatim>\<open>{allOf: []}\<close> there is no first member:
  \<^verbatim>\<open>getSchemaType(current.allOf[0])\<close> reads \<^verbatim>\<open>type\<close> of \<^verbatim>\<open>undefined\<close> and the call
  ends with the runtime's TypeError, before the assertion that reports a list
  without a mergeable type is reached. The same happens on
  \<^verbatim>\<open>{allOf: [{$ref: '#/missing'}]}\<close>, where the type is read from the undefined
  target of the reference.
\<close>

theorem allOf_empty_list_type_error:
  "translate 1 cfg0 (Ref 1) (state_of [Arr [], Obj [(''allOf'', Ref 0)]]) =
     (Inl TypeError, state_of [Arr [], Obj [(''allOf'', Ref 0)]]) \<and>
   translate 1 cfg0 (Ref 2)
     (state_of [Obj [(''$ref'', Str ''#/missing'')], Arr [Ref 0], Obj [(''allOf'', Ref 1)]]) =
     (Inl TypeError,
      state_of [Obj [(''$ref'', Str ''#/missing'')], Arr [Ref 0], Obj [(''allOf'', Ref 1)]])"
  by code_simp

end
